theory Spec2Isabelle
  imports Main
begin

section \<open>Training extensions of blocks (src/blocks/extensions.py)\<close>

subsection \<open>Values, the log and the errors\<close>

text \<open>
  The Python values that reach the constructor flags and the rows of the log:
  \<open>None\<close>, a bool or an int. \<open>truthy\<close> is Python's truth test as \<open>if x:\<close> applies it,
  \<open>py_eq_int n v\<close> is Python's \<open>n == v\<close> for an int \<open>n\<close> (where \<open>True == 1\<close> and
  \<open>False == 0\<close>, and no int equals \<open>None\<close>).
\<close>

datatype pyval = PNone | PBool bool | PInt int

fun truthy :: "pyval \<Rightarrow> bool" where
  "truthy PNone = False"
| "truthy (PBool b) = b"
| "truthy (PInt n) = (n \<noteq> 0)"

fun py_eq_int :: "int \<Rightarrow> pyval \<Rightarrow> bool" where
  "py_eq_int n PNone = False"
| "py_eq_int n (PBool b) = (n = (if b then 1 else 0))"
| "py_eq_int n (PInt m) = (n = m)"

text \<open>
  The log of the main loop, as far as this file reads and writes it:
  \<open>log.status.epochs_done\<close>, \<open>log.status.iterations_done\<close> and the attributes of
  \<open>log.current_row\<close>, a row being a finite table from attribute names to values.
\<close>

record status =
  epochs_done :: int
  iterations_done :: int

record log =
  status :: status
  current_row :: "string \<rightharpoonup> pyval"

record main_loop =
  log :: log

datatype error = AttributeError string | TypeError string

subsection \<open>TrainingExtension\<close>

text \<open>
  An attribute that \<open>getattr\<close> finds on an object is either callable (a method, which
  takes the positional arguments and the state of the object and returns the new state
  or raises) or a plain value. \<open>TrainingExtension.dispatch\<close> is
  \<open>getattr(self, callback_name)(*args)\<close>: the lookup raises \<open>AttributeError\<close> for a
  missing name, and calling a value that is not callable raises \<open>TypeError\<close>. What
  \<open>getattr\<close> finds on the object is a table from names, a parameter of \<open>dispatch\<close>.
\<close>

datatype ('a, 's) attribute =
  Method "'a list \<Rightarrow> 's \<Rightarrow> error + 's"
| Data pyval

definition TrainingExtension_dispatch ::
  "(string \<rightharpoonup> ('a, 's) attribute) \<Rightarrow> string \<Rightarrow> 'a list \<Rightarrow> 's \<Rightarrow> error + 's" where
  "TrainingExtension_dispatch attrs callback_name args self =
     (case attrs callback_name of
        None \<Rightarrow> Inl (AttributeError callback_name)
      | Some (Data v) \<Rightarrow> Inl (TypeError ''object is not callable'')
      | Some (Method m) \<Rightarrow> m args self)"

text \<open>
  The seven callbacks of the class body. Each one is \<open>pass\<close>; a call with the wrong
  number of positional arguments raises \<open>TypeError\<close> before the body runs.
\<close>

definition before_training :: "'a list \<Rightarrow> 's \<Rightarrow> error + 's" where
  "before_training args self =
     (if args = [] then Inr self else Inl (TypeError ''before_training''))"

definition before_epoch :: "'a list \<Rightarrow> 's \<Rightarrow> error + 's" where
  "before_epoch args self =
     (if args = [] then Inr self else Inl (TypeError ''before_epoch''))"

definition before_batch :: "'a list \<Rightarrow> 's \<Rightarrow> error + 's" where
  "before_batch args self =
     (case args of [batch] \<Rightarrow> Inr self | _ \<Rightarrow> Inl (TypeError ''before_batch''))"

definition after_batch :: "'a list \<Rightarrow> 's \<Rightarrow> error + 's" where
  "after_batch args self =
     (case args of [batch] \<Rightarrow> Inr self | _ \<Rightarrow> Inl (TypeError ''after_batch''))"

definition after_epoch :: "'a list \<Rightarrow> 's \<Rightarrow> error + 's" where
  "after_epoch args self =
     (if args = [] then Inr self else Inl (TypeError ''after_epoch''))"

definition after_training :: "'a list \<Rightarrow> 's \<Rightarrow> error + 's" where
  "after_training args self =
     (if args = [] then Inr self else Inl (TypeError ''after_training''))"

definition on_interrupt :: "'a list \<Rightarrow> 's \<Rightarrow> error + 's" where
  "on_interrupt args self =
     (if args = [] then Inr self else Inl (TypeError ''on_interrupt''))"

text \<open>The callbacks by name: the seven methods that the class body defines besides
  \<open>dispatch\<close>.\<close>

definition TrainingExtension_callbacks :: "string \<rightharpoonup> ('a, 's) attribute" where
  "TrainingExtension_callbacks =
     map_of
       [(''before_training'', Method before_training),
        (''before_epoch'', Method before_epoch),
        (''before_batch'', Method before_batch),
        (''after_batch'', Method after_batch),
        (''after_epoch'', Method after_epoch),
        (''after_training'', Method after_training),
        (''on_interrupt'', Method on_interrupt)]"

text \<open>
  What \<open>getattr\<close> finds on a \<open>TrainingExtension\<close> object. The callbacks and \<open>dispatch\<close>
  are plain functions of the class, so an attribute of the same name assigned on the
  instance is found before them (\<open>instance\<close>, the attributes assigned on the object
  under these eight names). Every other name is looked up outside the class body:
  among the other attributes assigned on the instance (the host assigns \<open>main_loop\<close>),
  those that the class statement adds by itself and those inherited from \<open>object\<close>
  (\<open>__init__\<close>, \<open>__class__\<close>, \<open>__doc__\<close> and so on). These are not part of the file and
  are the parameter \<open>elsewhere\<close>.

  \<open>dispatch\<close> found through \<open>getattr\<close> is the bound method: called with no argument it
  raises \<open>TypeError\<close>, otherwise its first argument is the callback name and the others
  are passed on. \<open>as_name\<close> reads an argument as a string; \<open>getattr\<close> raises
  \<open>TypeError\<close> for a name that is not a string.
\<close>

definition TrainingExtension_attribute ::
  "(string \<rightharpoonup> ('a, 's) attribute) \<Rightarrow> (string \<rightharpoonup> ('a, 's) attribute) \<Rightarrow>
   string \<rightharpoonup> ('a, 's) attribute" where
  "TrainingExtension_attribute instance elsewhere name =
     (case TrainingExtension_callbacks name of
        Some callback \<Rightarrow>
          (case instance name of None \<Rightarrow> Some callback | Some x \<Rightarrow> Some x)
      | None \<Rightarrow> elsewhere name)"

fun TrainingExtension_bound_dispatch ::
  "(string \<rightharpoonup> ('a, 's) attribute) \<Rightarrow> (string \<rightharpoonup> ('a, 's) attribute) \<Rightarrow>
   ('a \<Rightarrow> string option) \<Rightarrow> 'a list \<Rightarrow> 's \<Rightarrow> error + 's" where
  "TrainingExtension_bound_dispatch instance elsewhere as_name [] self =
     Inl (TypeError ''dispatch'')"
| "TrainingExtension_bound_dispatch instance elsewhere as_name (a # args) self =
     (case as_name a of
        None \<Rightarrow> Inl (TypeError ''getattr'')
      | Some callback_name \<Rightarrow>
          (case (if callback_name = ''dispatch'' then instance callback_name
                 else TrainingExtension_attribute instance elsewhere callback_name) of
             None \<Rightarrow>
               if callback_name = ''dispatch''
               then TrainingExtension_bound_dispatch instance elsewhere as_name args self
               else Inl (AttributeError callback_name)
           | Some (Data v) \<Rightarrow> Inl (TypeError ''object is not callable'')
           | Some (Method m) \<Rightarrow> m args self))"

definition TrainingExtension_getattr ::
  "(string \<rightharpoonup> ('a, 's) attribute) \<Rightarrow> (string \<rightharpoonup> ('a, 's) attribute) \<Rightarrow>
   ('a \<Rightarrow> string option) \<Rightarrow> string \<rightharpoonup> ('a, 's) attribute" where
  "TrainingExtension_getattr instance elsewhere as_name name =
     (if name = ''dispatch'' then
        (case instance name of
           None \<Rightarrow> Some (Method (TrainingExtension_bound_dispatch instance elsewhere as_name))
         | Some x \<Rightarrow> Some x)
      else TrainingExtension_attribute instance elsewhere name)"

subsection \<open>SimpleExtension\<close>

text \<open>
  A condition is the triple \<open>(callback_name, predicate, arguments)\<close> that
  \<open>add_condition\<close> appends to \<open>self._conditions\<close>. The extension object holds that list
  and the attribute \<open>main_loop\<close>, which the constructor does not set: reading it before
  the host has assigned it raises \<open>AttributeError\<close>. Predicates are functions of the
  log that return a bool, as the docstring of \<open>add_condition\<close> asks.
\<close>

type_synonym 'a condition = "string \<times> (log \<Rightarrow> bool) \<times> 'a list"

record 'a simple_extension =
  conditions :: "'a condition list"
  main_loop :: "main_loop option"

text \<open>
  \<open>add_condition\<close>: \<open>not arguments\<close> holds for \<open>None\<close> and for an empty sequence,
  \<open>not predicate\<close> holds for \<open>None\<close> (a function object is always true).
\<close>

definition add_condition ::
  "string \<Rightarrow> (log \<Rightarrow> bool) option \<Rightarrow> 'a list option \<Rightarrow>
   'a simple_extension \<Rightarrow> 'a simple_extension" where
  "add_condition callback_name predicate arguments self =
     (let arguments' = (case arguments of
                          None \<Rightarrow> []
                        | Some xs \<Rightarrow> if xs = [] then [] else xs);
          predicate' = (case predicate of
                          None \<Rightarrow> (\<lambda>log. True)
                        | Some p \<Rightarrow> p)
      in self\<lparr>conditions := conditions self @ [(callback_name, predicate', arguments')]\<rparr>)"

text \<open>
  The constructor, in the order of its six \<open>if\<close> statements. Each flag is tested for
  truth, also \<open>after_n_epochs\<close> and \<open>after_n_batches\<close>.
\<close>

definition SimpleExtension_init ::
  "pyval \<Rightarrow> pyval \<Rightarrow> pyval \<Rightarrow> pyval \<Rightarrow> pyval \<Rightarrow> pyval \<Rightarrow> 'a simple_extension" where
  "SimpleExtension_init before_first_epoch after_every_epoch after_every_batch
       after_training_flag after_n_epochs after_n_batches =
     (let self0 = \<lparr>conditions = [], main_loop = None\<rparr>;
          self1 = (if truthy before_first_epoch
                   then add_condition ''before_epoch''
                          (Some (\<lambda>log. epochs_done (status log) = 0)) None self0
                   else self0);
          self2 = (if truthy after_every_epoch
                   then add_condition ''after_epoch'' None None self1 else self1);
          self3 = (if truthy after_every_batch
                   then add_condition ''after_batch'' None None self2 else self2);
          self4 = (if truthy after_training_flag
                   then add_condition ''after_training'' None None self3 else self3);
          self5 = (if truthy after_n_epochs
                   then add_condition ''after_epoch''
                          (Some (\<lambda>log. py_eq_int (epochs_done (status log)) after_n_epochs))
                          None self4
                   else self4);
          self6 = (if truthy after_n_batches
                   then add_condition ''after_batch''
                          (Some (\<lambda>log. py_eq_int (iterations_done (status log)) after_n_batches))
                          None self5
                   else self5)
      in self6)"

text \<open>
  Keyword arguments are a dict, kept as an association list in insertion order. A call
  \<open>__init__(**kwargs)\<close> raises \<open>TypeError\<close> for a keyword the constructor does not
  have, and a missing keyword takes its default (\<open>False\<close> for the four flags, \<open>None\<close>
  for the two counts).
\<close>

type_synonym kwargs = "(string \<times> pyval) list"

definition SimpleExtension_parameters :: "string list" where
  "SimpleExtension_parameters =
     [''before_first_epoch'', ''after_every_epoch'', ''after_every_batch'',
      ''after_training'', ''after_n_epochs'', ''after_n_batches'']"

definition kwarg :: "kwargs \<Rightarrow> string \<Rightarrow> pyval \<Rightarrow> pyval" where
  "kwarg kw name dflt = (case map_of kw name of None \<Rightarrow> dflt | Some v \<Rightarrow> v)"

definition SimpleExtension_init_kwargs :: "kwargs \<Rightarrow> error + 'a simple_extension" where
  "SimpleExtension_init_kwargs kw =
     (case filter (\<lambda>k. k \<notin> set SimpleExtension_parameters) (map fst kw) of
        k # _ \<Rightarrow> Inl (TypeError k)
      | [] \<Rightarrow>
          Inr (SimpleExtension_init
                 (kwarg kw ''before_first_epoch'' (PBool False))
                 (kwarg kw ''after_every_epoch'' (PBool False))
                 (kwarg kw ''after_every_batch'' (PBool False))
                 (kwarg kw ''after_training'' (PBool False))
                 (kwarg kw ''after_n_epochs'' PNone)
                 (kwarg kw ''after_n_batches'' PNone)))"

text \<open>
  \<open>dispatch\<close>. The \<open>for\<close> statement walks the list object \<open>self._conditions\<close> by
  position and looks at its length again before every step, so conditions that \<open>do\<close>
  appends while the loop runs are visited too, and a \<open>do\<close> that keeps appending keeps
  the loop running: the loop is a partial function. \<open>do\<close> is abstract in
  \<open>SimpleExtension\<close>; here it is a parameter, a method of the extension that takes
  \<open>which_callback\<close> and the positional arguments and returns the new state of the
  extension or raises. \<open>and\<close> evaluates \<open>predicate(self.main_loop.log)\<close> only when the
  names are equal. A \<open>do\<close> that returns the extension with another list of conditions
  stands for a \<open>do\<close> that changes the list object in place (\<open>self.add_condition(...)\<close>,
  \<open>del self._conditions[1:]\<close>), which is what the running loop sees.

  The model keeps a record of the calls the loop makes: \<open>PredicateCalled i l\<close> when the
  predicate of the condition at position \<open>i\<close> is called with the log \<open>l\<close>, and
  \<open>DoCalled w args\<close> when \<open>do\<close> is called.
\<close>

datatype 'a event = PredicateCalled nat log | DoCalled string "'a list"

type_synonym 'a do_method =
  "string \<Rightarrow> 'a list \<Rightarrow> 'a simple_extension \<Rightarrow> error + 'a simple_extension"

partial_function (option) dispatch_loop ::
  "'a do_method \<Rightarrow> string \<Rightarrow> 'a list \<Rightarrow> nat \<Rightarrow> 'a event list \<Rightarrow> 'a simple_extension \<Rightarrow>
   (error + 'a event list \<times> 'a simple_extension) option" where
  "dispatch_loop do callback_invoked from_main_loop i calls self =
     (if i < length (conditions self) then
        (case conditions self ! i of (callback_name, predicate, arguments) \<Rightarrow>
           if callback_name = callback_invoked then
             (case main_loop self of
                None \<Rightarrow> Some (Inl (AttributeError ''main_loop''))
              | Some ml \<Rightarrow>
                  if predicate (log ml) then
                    (case do callback_invoked (from_main_loop @ arguments) self of
                       Inl e \<Rightarrow> Some (Inl e)
                     | Inr self' \<Rightarrow>
                         dispatch_loop do callback_invoked from_main_loop (Suc i)
                           (calls @ [PredicateCalled i (log ml),
                                     DoCalled callback_invoked (from_main_loop @ arguments)])
                           self')
                  else
                    dispatch_loop do callback_invoked from_main_loop (Suc i)
                      (calls @ [PredicateCalled i (log ml)]) self)
           else dispatch_loop do callback_invoked from_main_loop (Suc i) calls self)
      else Some (Inr (calls, self)))"

definition dispatch ::
  "'a do_method \<Rightarrow> string \<Rightarrow> 'a list \<Rightarrow> 'a simple_extension \<Rightarrow>
   (error + 'a event list \<times> 'a simple_extension) option" where
  "dispatch do callback_invoked from_main_loop self =
     dispatch_loop do callback_invoked from_main_loop 0 [] self"

text \<open>The calls of \<open>do\<close> and the calls of predicates in a record of calls, in order.\<close>

fun do_calls :: "'a event list \<Rightarrow> (string \<times> 'a list) list" where
  "do_calls [] = []"
| "do_calls (PredicateCalled i l # es) = do_calls es"
| "do_calls (DoCalled w args # es) = (w, args) # do_calls es"

fun predicate_calls :: "'a event list \<Rightarrow> (nat \<times> log) list" where
  "predicate_calls [] = []"
| "predicate_calls (PredicateCalled i l # es) = (i, l) # predicate_calls es"
| "predicate_calls (DoCalled w args # es) = predicate_calls es"

subsection \<open>FinishAfter and Printing\<close>

text \<open>
  \<open>FinishAfter.__init__\<close> passes its keywords on. \<open>FinishAfter.do\<close> is the assignment
  \<open>self.main_loop.log.current_row.training_finish_requested = True\<close>.
\<close>

definition FinishAfter_init :: "kwargs \<Rightarrow> error + 'a simple_extension" where
  "FinishAfter_init kw = SimpleExtension_init_kwargs kw"

definition FinishAfter_do :: "'a do_method" where
  "FinishAfter_do which_callback args self =
     (case main_loop self of
        None \<Rightarrow> Inl (AttributeError ''main_loop'')
      | Some ml \<Rightarrow>
          Inr (self\<lparr>main_loop :=
                 Some (ml\<lparr>log := (log ml)\<lparr>current_row :=
                   (current_row (log ml))(''training_finish_requested'' \<mapsto> PBool True)\<rparr>\<rparr>)\<rparr>))"

text \<open>\<open>Printing.__init__\<close>: three times \<open>set_if_absent\<close>, then the constructor.\<close>

definition set_if_absent :: "string \<Rightarrow> kwargs \<Rightarrow> kwargs" where
  "set_if_absent name kw =
     (if map_of kw name = None then kw @ [(name, PBool True)] else kw)"

definition Printing_kwargs :: "kwargs \<Rightarrow> kwargs" where
  "Printing_kwargs kw =
     set_if_absent ''after_every_epoch''
       (set_if_absent ''after_training''
          (set_if_absent ''before_first_epoch'' kw))"

definition Printing_init :: "kwargs \<Rightarrow> error + 'a simple_extension" where
  "Printing_init kw = SimpleExtension_init_kwargs (Printing_kwargs kw)"

subsection \<open>The loop of dispatch over a fixed list\<close>

text \<open>
  When \<open>do\<close> leaves \<open>self._conditions\<close> as it is, the \<open>for\<close> statement of \<open>dispatch\<close>
  visits the conditions that are registered when it starts, one after the other.
  \<open>do_keeps_conditions\<close> says that of a \<open>do\<close> method; \<open>conditions_loop\<close> is the loop over
  the conditions from position \<open>i\<close> on, given as a list, with the calls it makes;
  \<open>after_calls\<close> puts the calls made before in front. \<open>replay\<close> makes the given calls
  of \<open>do\<close> one after the other, from a given state of the extension.
\<close>

definition do_keeps_conditions :: "'a do_method \<Rightarrow> bool" where
  "do_keeps_conditions do \<longleftrightarrow>
     (\<forall>w args self self'. do w args self = Inr self' \<longrightarrow> conditions self' = conditions self)"

fun conditions_loop ::
  "'a do_method \<Rightarrow> string \<Rightarrow> 'a list \<Rightarrow> nat \<Rightarrow> 'a condition list \<Rightarrow> 'a simple_extension \<Rightarrow>
   error + 'a event list \<times> 'a simple_extension" where
  "conditions_loop do ci fml i [] self = Inr ([], self)"
| "conditions_loop do ci fml i ((callback_name, predicate, arguments) # cs) self =
     (if callback_name = ci then
        (case main_loop self of
           None \<Rightarrow> Inl (AttributeError ''main_loop'')
         | Some ml \<Rightarrow>
             if predicate (log ml) then
               (case do ci (fml @ arguments) self of
                  Inl e \<Rightarrow> Inl e
                | Inr self' \<Rightarrow>
                    (case conditions_loop do ci fml (Suc i) cs self' of
                       Inl e \<Rightarrow> Inl e
                     | Inr (es, s) \<Rightarrow>
                         Inr (PredicateCalled i (log ml) # DoCalled ci (fml @ arguments) # es, s)))
             else
               (case conditions_loop do ci fml (Suc i) cs self of
                  Inl e \<Rightarrow> Inl e
                | Inr (es, s) \<Rightarrow> Inr (PredicateCalled i (log ml) # es, s)))
      else conditions_loop do ci fml (Suc i) cs self)"

definition after_calls ::
  "'a event list \<Rightarrow> error + 'a event list \<times> 'a simple_extension \<Rightarrow>
   error + 'a event list \<times> 'a simple_extension" where
  "after_calls calls r = (case r of Inl e \<Rightarrow> Inl e | Inr (es, s) \<Rightarrow> Inr (calls @ es, s))"

fun replay ::
  "'a do_method \<Rightarrow> (string \<times> 'a list) list \<Rightarrow> 'a simple_extension \<Rightarrow> error + 'a simple_extension" where
  "replay do [] self = Inr self"
| "replay do ((w, args) # cs) self =
     (case do w args self of Inl e \<Rightarrow> Inl e | Inr self' \<Rightarrow> replay do cs self')"

section \<open>Properties\<close>

lemma conditions_add_condition:
  "conditions (add_condition n p a self) =
     conditions self @
       [(n, (case p of None \<Rightarrow> (\<lambda>l. True) | Some q \<Rightarrow> q), (case a of None \<Rightarrow> [] | Some xs \<Rightarrow> xs))]"
  by (simp add: add_condition_def split: option.splits)

lemma main_loop_add_condition: "main_loop (add_condition n p a self) = main_loop self"
  by (simp add: add_condition_def)

subsection \<open>The loop of dispatch\<close>

lemma after_calls_simps [simp]:
  "after_calls calls (Inl e) = Inl e"
  "after_calls calls (Inr (es, s)) = Inr (calls @ es, s)"
  by (simp_all add: after_calls_def)

lemma dispatch_loop_eq:
  assumes keeps: "do_keeps_conditions do"
  shows "i \<le> length (conditions self) \<Longrightarrow>
         dispatch_loop do ci fml i calls self =
           Some (after_calls calls (conditions_loop do ci fml i (drop i (conditions self)) self))"
proof (induction "length (conditions self) - i" arbitrary: i calls self)
  case 0
  then have "i = length (conditions self)" by simp
  then show ?case by (subst dispatch_loop.simps) simp
next
  case (Suc n)
  then have lt: "i < length (conditions self)" by simp
  obtain cn p a where c: "conditions self ! i = (cn, p, a)" by (cases "conditions self ! i")
  have d: "drop i (conditions self) = (cn, p, a) # drop (Suc i) (conditions self)"
    using lt c by (simp add: Cons_nth_drop_Suc [symmetric])
  have ih: "dispatch_loop do ci fml (Suc i) calls' s =
              Some (after_calls calls' (conditions_loop do ci fml (Suc i) (drop (Suc i) (conditions self)) s))"
    if "conditions s = conditions self" for calls' s
    using Suc.hyps(1) [of s "Suc i" calls'] Suc.hyps(2) lt that by simp
  show ?case
  proof (cases "cn = ci")
    case False
    then show ?thesis using lt c d ih [of self calls] by (subst dispatch_loop.simps) simp
  next
    case True
    show ?thesis
    proof (cases "main_loop self")
      case None
      then show ?thesis using lt c d True by (subst dispatch_loop.simps) simp
    next
      case (Some ml)
      show ?thesis
      proof (cases "p (log ml)")
        case False
        then show ?thesis using lt c d True Some ih [of self]
          by (subst dispatch_loop.simps) (simp split: sum.splits)
      next
        case pt: True
        show ?thesis
        proof (cases "do ci (fml @ a) self")
          case (Inl e)
          then show ?thesis using lt c d True Some pt by (subst dispatch_loop.simps) simp
        next
          case (Inr s')
          then have "conditions s' = conditions self"
            using keeps by (auto simp: do_keeps_conditions_def)
          then show ?thesis using lt c d True Some pt Inr ih [of s']
            by (subst dispatch_loop.simps) (simp split: sum.splits)
        qed
      qed
    qed
  qed
qed

lemma loop_Cons_cases:
  assumes "conditions_loop do ci fml i ((cn, p, a) # cs) self = Inr (es, s)"
  obtains
    (other_name) "cn \<noteq> ci" "conditions_loop do ci fml (Suc i) cs self = Inr (es, s)"
  | (not_satisfied) ml es' where "cn = ci" "main_loop self = Some ml" "\<not> p (log ml)"
      "conditions_loop do ci fml (Suc i) cs self = Inr (es', s)"
      "es = PredicateCalled i (log ml) # es'"
  | (fired) ml s0 es' where "cn = ci" "main_loop self = Some ml" "p (log ml)"
      "do ci (fml @ a) self = Inr s0"
      "conditions_loop do ci fml (Suc i) cs s0 = Inr (es', s)"
      "es = PredicateCalled i (log ml) # DoCalled ci (fml @ a) # es'"
  using assms by (auto split: if_splits option.splits sum.splits prod.splits)

lemma loop_conditions:
  assumes "do_keeps_conditions do"
  shows "conditions_loop do ci fml i cs self = Inr (es, s) \<Longrightarrow> conditions s = conditions self"
proof (induction cs arbitrary: i self es s)
  case Nil
  then show ?case by simp
next
  case (Cons c cs)
  obtain cn p a where c: "c = (cn, p, a)" by (cases c)
  from Cons.prems [unfolded c] show ?case
  proof (cases rule: loop_Cons_cases)
    case other_name
    then show ?thesis using Cons.IH by blast
  next
    case (not_satisfied ml es')
    then show ?thesis using Cons.IH by blast
  next
    case (fired ml s0 es')
    then have "conditions s0 = conditions self"
      using assms by (auto simp: do_keeps_conditions_def)
    then show ?thesis using Cons.IH [OF fired(5)] by simp
  qed
qed

lemma loop_predicate_indices:
  "conditions_loop do ci fml i cs self = Inr (es, s) \<Longrightarrow>
   map fst (predicate_calls es) = map fst (filter (\<lambda>(k, cn, p, a). cn = ci) (enumerate i cs))"
proof (induction cs arbitrary: i self es s)
  case Nil
  then show ?case by auto
next
  case (Cons c cs)
  obtain cn p a where c: "c = (cn, p, a)" by (cases c)
  from Cons.prems [unfolded c] show ?case
  proof (cases rule: loop_Cons_cases)
    case other_name
    then show ?thesis using Cons.IH [OF other_name(2)] by (simp add: c)
  next
    case (not_satisfied ml es')
    then show ?thesis using Cons.IH [OF not_satisfied(4)] by (simp add: c)
  next
    case (fired ml s0 es')
    then show ?thesis using Cons.IH [OF fired(5)] by (simp add: c)
  qed
qed

lemma loop_predicate_index_bounds:
  assumes "conditions_loop do ci fml i cs self = Inr (es, s)"
    and "(k, l) \<in> set (predicate_calls es)"
  shows "i \<le> k \<and> k < i + length cs"
proof -
  have "k \<in> set (map fst (predicate_calls es))" using assms(2) by force
  then have "k \<in> fst ` set (enumerate i cs)"
    unfolding loop_predicate_indices [OF assms(1)] by auto
  then show ?thesis by (auto simp: in_set_enumerate_eq)
qed

lemma loop_do_calls:
  "conditions_loop do ci fml i cs self = Inr (es, s) \<Longrightarrow>
   do_calls es =
     map (\<lambda>(k, l). (ci, fml @ snd (snd (cs ! (k - i)))))
       (filter (\<lambda>(k, l). fst (snd (cs ! (k - i))) l) (predicate_calls es))"
proof (induction cs arbitrary: i self es s)
  case Nil
  then show ?case by auto
next
  case (Cons c cs)
  obtain cn p a where c: "c = (cn, p, a)" by (cases c)
  have shift: "map (\<lambda>(k, l). (ci, fml @ snd (snd ((c # cs) ! (k - i)))))
                 (filter (\<lambda>(k, l). fst (snd ((c # cs) ! (k - i))) l) (predicate_calls es')) =
               map (\<lambda>(k, l). (ci, fml @ snd (snd (cs ! (k - Suc i)))))
                 (filter (\<lambda>(k, l). fst (snd (cs ! (k - Suc i))) l) (predicate_calls es'))"
    if r: "conditions_loop do ci fml (Suc i) cs s0 = Inr (es', s)" for es' s0
  proof -
    have *: "(c # cs) ! (k - i) = cs ! (k - Suc i)" if "(k, l) \<in> set (predicate_calls es')" for k l
    proof -
      have "Suc i \<le> k" using loop_predicate_index_bounds [OF r that] by simp
      then obtain d where "k - i = Suc d" "k - Suc i = d" by (metis Suc_diff_le diff_Suc_Suc)
      then show ?thesis by simp
    qed
    have f: "filter (\<lambda>(k, l). fst (snd ((c # cs) ! (k - i))) l) (predicate_calls es') =
             filter (\<lambda>(k, l). fst (snd (cs ! (k - Suc i))) l) (predicate_calls es')"
      by (rule filter_cong) (auto simp: *)
    show ?thesis unfolding f
      by (rule map_cong) (auto simp: *)
  qed
  from Cons.prems [unfolded c] show ?case
  proof (cases rule: loop_Cons_cases)
    case other_name
    then show ?thesis using Cons.IH [OF other_name(2)] shift [OF other_name(2)] by simp
  next
    case (not_satisfied ml es')
    then show ?thesis
      using Cons.IH [OF not_satisfied(4)] shift [OF not_satisfied(4)] by (simp add: c)
  next
    case (fired ml s0 es')
    then show ?thesis
      using Cons.IH [OF fired(5)] shift [OF fired(5)] by (simp add: c)
  qed
qed

lemma loop_predicate_logs:
  "conditions_loop do ci fml i cs self = Inr (es, s) \<Longrightarrow>
   j < length es \<Longrightarrow> es ! j = PredicateCalled k l \<Longrightarrow>
   \<exists>s' ml. replay do (do_calls (take j es)) self = Inr s' \<and> main_loop s' = Some ml \<and> log ml = l"
proof (induction cs arbitrary: i self es s j)
  case Nil
  then show ?case by auto
next
  case (Cons c cs)
  obtain cn p a where c: "c = (cn, p, a)" by (cases c)
  from Cons.prems(1) [unfolded c] show ?case
  proof (cases rule: loop_Cons_cases)
    case other_name
    then show ?thesis using Cons.IH [OF other_name(2) Cons.prems(2,3)] by simp
  next
    case (not_satisfied ml es')
    show ?thesis
    proof (cases j)
      case 0
      then show ?thesis using Cons.prems(3) not_satisfied by simp
    next
      case (Suc j')
      then show ?thesis
        using Cons.IH [OF not_satisfied(4), of j'] Cons.prems(2,3) not_satisfied(5) by simp
    qed
  next
    case (fired ml s0 es')
    show ?thesis
    proof (cases j)
      case 0
      then show ?thesis using Cons.prems(3) fired by simp
    next
      case (Suc j')
      show ?thesis
      proof (cases j')
        case 0
        then show ?thesis using Suc Cons.prems(3) fired(6) by simp
      next
        case (Suc j'')
        then show ?thesis
          using \<open>j = Suc j'\<close> Cons.IH [OF fired(5), of j''] Cons.prems(2,3) fired(4,6) by simp
      qed
    qed
  qed
qed

lemma dispatch_loop_no_match:
  "(\<And>k. i \<le> k \<Longrightarrow> k < length (conditions self) \<Longrightarrow> fst (conditions self ! k) \<noteq> ci) \<Longrightarrow>
   dispatch_loop do ci fml i calls self = Some (Inr (calls, self))"
proof (induction "length (conditions self) - i" arbitrary: i)
  case 0
  then show ?case by (subst dispatch_loop.simps) simp
next
  case (Suc n)
  then have lt: "i < length (conditions self)" by simp
  obtain cn p a where c: "conditions self ! i = (cn, p, a)" by (cases "conditions self ! i")
  have ne: "cn \<noteq> ci" using Suc.prems [of i] lt c by simp
  have "dispatch_loop do ci fml (Suc i) calls self = Some (Inr (calls, self))"
    using Suc.hyps(1) [of "Suc i"] Suc.hyps(2) Suc.prems by simp
  then show ?case using lt c ne by (subst dispatch_loop.simps) simp
qed

lemma FinishAfter_do_keeps_conditions: "do_keeps_conditions FinishAfter_do"
  by (auto simp: do_keeps_conditions_def FinishAfter_do_def split: option.splits)

lemma dispatch_eq:
  "do_keeps_conditions do \<Longrightarrow>
   dispatch do ci fml self = Some (conditions_loop do ci fml 0 (conditions self) self)"
  using dispatch_loop_eq [of "do" 0 self ci fml "[]"]
  by (cases "conditions_loop do ci fml 0 (conditions self) self")
     (auto simp: dispatch_def after_calls_def)

text \<open>
  What holds for every \<open>do\<close>, by induction over the calls of the loop: the extension
  that a dispatch leaves is the one that its calls of \<open>do\<close> produce, and every
  predicate call is made for a position whose condition has, at that moment, the invoked
  name.
\<close>

lemma do_calls_append: "do_calls (xs @ ys) = do_calls xs @ do_calls ys"
  by (induction xs rule: do_calls.induct) simp_all

lemma replay_append:
  "replay do (xs @ ys) s =
     (case replay do xs s of Inl e \<Rightarrow> Inl e | Inr s' \<Rightarrow> replay do ys s')"
  by (induction xs arbitrary: s) (auto split: sum.splits)

lemma dispatch_loop_replay:
  assumes "dispatch_loop do ci fml i calls self = Some r"
  shows "\<forall>calls' self' self0. r = Inr (calls', self') \<longrightarrow>
           replay do (do_calls calls) self0 = Inr self \<longrightarrow>
           replay do (do_calls calls') self0 = Inr self'"
proof (rule dispatch_loop.raw_induct
    [where P = "\<lambda>do ci fml i calls self r. \<forall>calls' self' self0. r = Inr (calls', self') \<longrightarrow>
           replay do (do_calls calls) self0 = Inr self \<longrightarrow>
           replay do (do_calls calls') self0 = Inr self'", OF _ assms], goal_cases)
  case (1 loop do ci fml i calls self r)
  note ih = 1(1) [rule_format]
  show ?case
  proof (intro allI impI)
    fix calls' self' self0
    assume r: "r = Inr (calls', self')"
      and inv: "replay do (do_calls calls) self0 = Inr self"
    show "replay do (do_calls calls') self0 = Inr self'"
    proof (cases "i < length (conditions self)")
      case False
      with 1(2) r inv show ?thesis by simp
    next
      case lt: True
      obtain cn p a where c: "conditions self ! i = (cn, p, a)" by (cases "conditions self ! i")
      show ?thesis
      proof (cases "cn = ci")
        case False
        with 1(2) lt c have "loop do ci fml (Suc i) calls self = Some r" by simp
        from ih [OF this r inv] show ?thesis .
      next
        case True
        with 1(2) r lt c obtain ml where ml: "main_loop self = Some ml"
          by (auto split: option.splits)
        show ?thesis
        proof (cases "p (log ml)")
          case False
          with 1(2) lt c True ml
          have "loop do ci fml (Suc i) (calls @ [PredicateCalled i (log ml)]) self = Some r"
            by simp
          from ih [OF this r] inv show ?thesis
            by (simp add: do_calls_append)
        next
          case pt: True
          with 1(2) r lt c True ml obtain s1 where
            d: "do ci (fml @ a) self = Inr s1"
            and l: "loop do ci fml (Suc i)
                     (calls @ [PredicateCalled i (log ml), DoCalled ci (fml @ a)]) s1 = Some r"
            by (auto split: sum.splits)
          from ih [OF l r] inv d show ?thesis
            by (simp add: do_calls_append replay_append)
        qed
      qed
    qed
  qed
qed

lemma dispatch_replay:
  "dispatch do ci fml self = Some (Inr (calls, self')) \<Longrightarrow>
   replay do (do_calls calls) self = Inr self'"
  unfolding dispatch_def using dispatch_loop_replay [of "do" ci fml 0 "[]" self] by simp

lemma predicate_calls_snoc:
  assumes "\<forall>j k l. j < length cs \<and> cs ! j = PredicateCalled k l \<longrightarrow> Q (take j cs) k l"
    and "Q cs i lg"
  shows "\<forall>j k l. j < length (cs @ [PredicateCalled i lg]) \<and>
                 (cs @ [PredicateCalled i lg]) ! j = PredicateCalled k l \<longrightarrow>
                 Q (take j (cs @ [PredicateCalled i lg])) k l"
proof (intro allI impI)
  fix j k l
  assume a: "j < length (cs @ [PredicateCalled i lg]) \<and>
             (cs @ [PredicateCalled i lg]) ! j = PredicateCalled k l"
  show "Q (take j (cs @ [PredicateCalled i lg])) k l"
  proof (cases "j < length cs")
    case True
    with a assms(1) show ?thesis by (simp add: nth_append)
  next
    case False
    with a have "j = length cs" by simp
    with a assms(2) show ?thesis by simp
  qed
qed

lemma predicate_calls_snoc2:
  assumes "\<forall>j k l. j < length cs \<and> cs ! j = PredicateCalled k l \<longrightarrow> Q (take j cs) k l"
    and "Q cs i lg"
  shows "\<forall>j k l. j < length (cs @ [PredicateCalled i lg, DoCalled w a]) \<and>
                 (cs @ [PredicateCalled i lg, DoCalled w a]) ! j = PredicateCalled k l \<longrightarrow>
                 Q (take j (cs @ [PredicateCalled i lg, DoCalled w a])) k l"
proof (intro allI impI)
  fix j k l
  assume a: "j < length (cs @ [PredicateCalled i lg, DoCalled w a]) \<and>
             (cs @ [PredicateCalled i lg, DoCalled w a]) ! j = PredicateCalled k l"
  show "Q (take j (cs @ [PredicateCalled i lg, DoCalled w a])) k l"
  proof (cases "j < length cs")
    case True
    with a assms(1) show ?thesis by (simp add: nth_append)
  next
    case False
    with a have "j = length cs \<or> j = Suc (length cs)" by auto
    then show ?thesis
    proof
      assume "j = length cs"
      with a assms(2) show ?thesis by simp
    next
      assume "j = Suc (length cs)"
      with a show ?thesis by (simp add: nth_append)
    qed
  qed
qed

lemma dispatch_loop_predicate_calls:
  assumes "dispatch_loop do ci fml i calls self = Some r"
  shows "\<forall>calls' self' self0. r = Inr (calls', self') \<longrightarrow>
           replay do (do_calls calls) self0 = Inr self \<longrightarrow>
           (\<forall>j k l. j < length calls \<and> calls ! j = PredicateCalled k l \<longrightarrow>
              (\<exists>s ml. replay do (do_calls (take j calls)) self0 = Inr s \<and>
                 k < length (conditions s) \<and> fst (conditions s ! k) = ci \<and>
                 main_loop s = Some ml \<and> log ml = l)) \<longrightarrow>
           (\<forall>j k l. j < length calls' \<and> calls' ! j = PredicateCalled k l \<longrightarrow>
              (\<exists>s ml. replay do (do_calls (take j calls')) self0 = Inr s \<and>
                 k < length (conditions s) \<and> fst (conditions s ! k) = ci \<and>
                 main_loop s = Some ml \<and> log ml = l))"
proof (rule dispatch_loop.raw_induct
    [where P = "\<lambda>do ci fml i calls self r. \<forall>calls' self' self0. r = Inr (calls', self') \<longrightarrow>
           replay do (do_calls calls) self0 = Inr self \<longrightarrow>
           (\<forall>j k l. j < length calls \<and> calls ! j = PredicateCalled k l \<longrightarrow>
              (\<exists>s ml. replay do (do_calls (take j calls)) self0 = Inr s \<and>
                 k < length (conditions s) \<and> fst (conditions s ! k) = ci \<and>
                 main_loop s = Some ml \<and> log ml = l)) \<longrightarrow>
           (\<forall>j k l. j < length calls' \<and> calls' ! j = PredicateCalled k l \<longrightarrow>
              (\<exists>s ml. replay do (do_calls (take j calls')) self0 = Inr s \<and>
                 k < length (conditions s) \<and> fst (conditions s ! k) = ci \<and>
                 main_loop s = Some ml \<and> log ml = l))", OF _ assms], goal_cases)
  case (1 loop do ci fml i calls self r)
  note ih = 1(1) [rule_format]
  show ?case
  proof (intro allI impI, elim conjE)
    fix calls' self' self0 j k l
    let ?Q = "\<lambda>cs k l. \<exists>s ml. replay do (do_calls cs) self0 = Inr s \<and>
                 k < length (conditions s) \<and> fst (conditions s ! k) = ci \<and>
                 main_loop s = Some ml \<and> log ml = l"
    assume r: "r = Inr (calls', self')"
      and inv: "replay do (do_calls calls) self0 = Inr self"
      and old: "\<forall>j k l. j < length calls \<and> calls ! j = PredicateCalled k l \<longrightarrow>
                  ?Q (take j calls) k l"
      and j: "j < length calls'" "calls' ! j = PredicateCalled k l"
    show "?Q (take j calls') k l"
    proof (cases "i < length (conditions self)")
      case False
      with 1(2) r have "calls' = calls" by simp
      with old j show ?thesis by blast
    next
      case lt: True
      obtain cn p a where c: "conditions self ! i = (cn, p, a)" by (cases "conditions self ! i")
      show ?thesis
      proof (cases "cn = ci")
        case False
        with 1(2) lt c have "loop do ci fml (Suc i) calls self = Some r" by simp
        from ih [OF this r inv old [rule_format]] j show ?thesis by blast
      next
        case True
        with 1(2) r lt c obtain ml where ml: "main_loop self = Some ml"
          by (auto split: option.splits)
        have here: "?Q calls i (log ml)"
          using inv lt c True ml by auto
        show ?thesis
        proof (cases "p (log ml)")
          case False
          with 1(2) lt c True ml
          have l: "loop do ci fml (Suc i) (calls @ [PredicateCalled i (log ml)]) self = Some r"
            by simp
          have inv': "replay do (do_calls (calls @ [PredicateCalled i (log ml)])) self0 = Inr self"
            using inv by (simp add: do_calls_append)
          from ih [OF l r inv' predicate_calls_snoc [where Q = ?Q, OF old here, rule_format]] j
          show ?thesis by blast
        next
          case pt: True
          with 1(2) r lt c True ml obtain s1 where
            d: "do ci (fml @ a) self = Inr s1"
            and l: "loop do ci fml (Suc i)
                     (calls @ [PredicateCalled i (log ml), DoCalled ci (fml @ a)]) s1 = Some r"
            by (auto split: sum.splits)
          have inv': "replay do (do_calls (calls @ [PredicateCalled i (log ml),
                        DoCalled ci (fml @ a)])) self0 = Inr s1"
            using inv d by (simp add: do_calls_append replay_append)
          from ih [OF l r inv' predicate_calls_snoc2 [where Q = ?Q, OF old here, rule_format]] j
          show ?thesis by blast
        qed
      qed
    qed
  qed
qed

lemma dispatch_predicate_calls:
  assumes "dispatch do ci fml self = Some (Inr (calls, self'))"
    and "j < length calls" and "calls ! j = PredicateCalled k l"
  shows "\<exists>s ml. replay do (do_calls (take j calls)) self = Inr s \<and>
           k < length (conditions s) \<and> fst (conditions s ! k) = ci \<and>
           main_loop s = Some ml \<and> log ml = l"
  using dispatch_loop_predicate_calls [of "do" ci fml 0 "[]" self "Inr (calls, self')",
      rule_format, of calls self' self j k l] assms
  by (simp add: dispatch_def)

subsection \<open>Dispatch of a name that no condition has\<close>

text \<open>
  C4. When the invoked callback name is the name of no registered condition (any string,
  a lifecycle name or not), \<open>dispatch\<close> returns normally, has called neither \<open>do\<close> nor a
  predicate, and leaves the extension as it was: the list of conditions and the main
  loop with its log. This holds for every \<open>do\<close> and also when no main loop is attached
  yet, since \<open>self.main_loop\<close> is not read.
\<close>
theorem dispatch_unregistered_name_is_noop:
  "callback_invoked \<notin> fst ` set (conditions self) \<Longrightarrow>
   dispatch do callback_invoked from_main_loop self = Some (Inr ([], self))"
  unfolding dispatch_def
  by (rule dispatch_loop_no_match) (metis nth_mem image_eqI)

theorem dispatch_unregistered_name_is_noop_witness:
  "''after_trainin'' \<notin> fst ` set (conditions
       \<lparr>conditions = [(''after_training'', \<lambda>l. True, [1::nat]), (''after_epoch'', \<lambda>l. False, [])],
        main_loop = None\<rparr>) \<and>
   dispatch FinishAfter_do ''after_trainin'' [2]
       \<lparr>conditions = [(''after_training'', \<lambda>l. True, [1::nat]), (''after_epoch'', \<lambda>l. False, [])],
        main_loop = None\<rparr> =
     Some (Inr ([],
       \<lparr>conditions = [(''after_training'', \<lambda>l. True, [1::nat]), (''after_epoch'', \<lambda>l. False, [])],
        main_loop = None\<rparr>))"
  using dispatch_unregistered_name_is_noop
    [of "''after_trainin''"
        "\<lparr>conditions = [(''after_training'', \<lambda>l. True, [1::nat]), (''after_epoch'', \<lambda>l. False, [])],
          main_loop = None\<rparr>" FinishAfter_do "[2]"]
  by simp

subsection \<open>The list of conditions only grows at its end\<close>

text \<open>
  C9. \<open>add_condition\<close> appends exactly one triple (the given callback name, the given
  predicate or the always-true one, the given arguments or none) after the conditions
  registered before, which keep their order. \<open>dispatch\<close> has no statement of its own
  that writes the list: for every \<open>do\<close>, the extension after a dispatch that returns
  normally is the one that the calls of \<open>do\<close> made by the dispatch produce, applied in
  their order to the extension before. So with a \<open>do\<close> that leaves the list alone,
  \<open>dispatch\<close> returns, and when it returns normally the list after it is the list
  before it: nothing added, removed or reordered.
\<close>
theorem conditions_are_append_only:
  "conditions (add_condition callback_name predicate arguments self) =
     conditions self @
       [(callback_name,
         (case predicate of None \<Rightarrow> (\<lambda>log. True) | Some p \<Rightarrow> p),
         (case arguments of None \<Rightarrow> [] | Some xs \<Rightarrow> xs))] \<and>
   (\<forall>calls self'.
      dispatch do callback_invoked from_main_loop self = Some (Inr (calls, self')) \<longrightarrow>
        replay do (do_calls calls) self = Inr self') \<and>
   (do_keeps_conditions do \<longrightarrow>
      (\<exists>r. dispatch do callback_invoked from_main_loop self = Some r) \<and>
      (\<forall>calls self'. dispatch do callback_invoked from_main_loop self = Some (Inr (calls, self'))
          \<longrightarrow> conditions self' = conditions self))"
  by (auto simp: conditions_add_condition dispatch_eq dispatch_replay dest: loop_conditions)

theorem conditions_are_append_only_witness:
  "do_keeps_conditions (FinishAfter_do :: nat do_method) \<and>
   conditions (add_condition ''after_epoch'' None (Some [7::nat])
       \<lparr>conditions = [(''after_training'', \<lambda>l. True, [])], main_loop = None\<rparr>) =
     [(''after_training'', \<lambda>l. True, []), (''after_epoch'', \<lambda>l. True, [7])] \<and>
   dispatch FinishAfter_do ''after_epoch'' []
       \<lparr>conditions = [(''after_training'', \<lambda>l. True, []), (''after_epoch'', \<lambda>l. True, [7::nat])],
        main_loop = Some \<lparr>log = \<lparr>status = \<lparr>epochs_done = 1, iterations_done = 5\<rparr>,
                               current_row = Map.empty\<rparr>\<rparr>\<rparr> =
     Some (Inr ([PredicateCalled 1 \<lparr>status = \<lparr>epochs_done = 1, iterations_done = 5\<rparr>,
                                    current_row = Map.empty\<rparr>,
                 DoCalled ''after_epoch'' [7]],
       \<lparr>conditions = [(''after_training'', \<lambda>l. True, []), (''after_epoch'', \<lambda>l. True, [7::nat])],
        main_loop = Some \<lparr>log = \<lparr>status = \<lparr>epochs_done = 1, iterations_done = 5\<rparr>,
                               current_row = [''training_finish_requested'' \<mapsto> PBool True]\<rparr>\<rparr>\<rparr>))"
proof -
  let ?ext = "\<lparr>conditions = [(''after_training'', \<lambda>l. True, []), (''after_epoch'', \<lambda>l. True, [7::nat])],
        main_loop = Some \<lparr>log = \<lparr>status = \<lparr>epochs_done = 1, iterations_done = 5\<rparr>,
                               current_row = Map.empty\<rparr>\<rparr>\<rparr>"
  have keeps: "do_keeps_conditions (FinishAfter_do :: nat do_method)"
    by (rule FinishAfter_do_keeps_conditions)
  have app: "conditions (add_condition ''after_epoch'' None (Some [7::nat])
       \<lparr>conditions = [(''after_training'', \<lambda>l. True, [])], main_loop = None\<rparr>) =
     [(''after_training'', \<lambda>l. True, []), (''after_epoch'', \<lambda>l. True, [7])]"
    using conditions_are_append_only
      [of "''after_epoch''" None "Some [7::nat]"
          "\<lparr>conditions = [(''after_training'', \<lambda>l. True, [])], main_loop = None\<rparr>"
          FinishAfter_do "''after_epoch''" "[]"]
    by simp
  obtain r where r: "dispatch FinishAfter_do ''after_epoch'' [] ?ext = Some r"
    using conditions_are_append_only
      [of "''after_epoch''" None "Some [7::nat]" ?ext FinishAfter_do "''after_epoch''" "[]"] keeps
    by blast
  have "r = conditions_loop FinishAfter_do ''after_epoch'' [] 0 (conditions ?ext) ?ext"
    using r dispatch_eq [OF keeps, of "''after_epoch''" "[]" ?ext] by simp
  then show ?thesis using keeps app r by (simp add: FinishAfter_do_def)
qed

text \<open>
  Without that condition on \<open>do\<close> the list changes during a dispatch. Here \<open>do\<close> is
  \<open>if len(self._conditions) < 2: self.add_condition(which_callback)\<close>: the dispatch
  starts with one condition and ends with two.
\<close>

theorem conditions_are_append_only_counterexample:
  "dispatch
     (\<lambda>w args self.
        Inr (if length (conditions self) < 2 then add_condition w None None self else self))
     ''after_epoch'' []
     \<lparr>conditions = [(''after_epoch'', \<lambda>l. True, [] :: nat list)],
      main_loop = Some \<lparr>log = \<lparr>status = \<lparr>epochs_done = 1, iterations_done = 5\<rparr>,
                             current_row = Map.empty\<rparr>\<rparr>\<rparr> =
     Some (Inr
       ([PredicateCalled 0 \<lparr>status = \<lparr>epochs_done = 1, iterations_done = 5\<rparr>,
                           current_row = Map.empty\<rparr>,
         DoCalled ''after_epoch'' [],
         PredicateCalled 1 \<lparr>status = \<lparr>epochs_done = 1, iterations_done = 5\<rparr>,
                           current_row = Map.empty\<rparr>,
         DoCalled ''after_epoch'' []],
        \<lparr>conditions = [(''after_epoch'', \<lambda>l. True, []), (''after_epoch'', \<lambda>l. True, [])],
         main_loop = Some \<lparr>log = \<lparr>status = \<lparr>epochs_done = 1, iterations_done = 5\<rparr>,
                                current_row = Map.empty\<rparr>\<rparr>\<rparr>)) \<and>
   [(''after_epoch'', \<lambda>l :: log. True, [] :: nat list), (''after_epoch'', \<lambda>l. True, [])] \<noteq>
     [(''after_epoch'', \<lambda>l. True, [])]"
  unfolding dispatch_def
  by (subst dispatch_loop.simps, simp add: add_condition_def)+

subsection \<open>Dispatch of the base class\<close>

text \<open>
  C3. \<open>TrainingExtension.dispatch(callback_name, *args)\<close> calls the method that the
  extension has under that name, with the same arguments and on the same object, and
  its outcome is the outcome of that call. When the extension has no attribute of that
  name, it raises \<open>AttributeError\<close> and does not return normally.
\<close>
theorem TrainingExtension_dispatch_invokes_named_method:
  "(attrs callback_name = Some (Method m) \<longrightarrow>
      TrainingExtension_dispatch attrs callback_name args self = m args self) \<and>
   (attrs callback_name = None \<longrightarrow>
      TrainingExtension_dispatch attrs callback_name args self =
        Inl (AttributeError callback_name))"
  by (simp add: TrainingExtension_dispatch_def)

lemma TrainingExtension_bound_dispatch_eq:
  "TrainingExtension_bound_dispatch instance elsewhere as_name (a # args) self =
     (case as_name a of
        None \<Rightarrow> Inl (TypeError ''getattr'')
      | Some callback_name \<Rightarrow>
          TrainingExtension_dispatch (TrainingExtension_getattr instance elsewhere as_name)
            callback_name args self)"
  by (auto simp: TrainingExtension_dispatch_def TrainingExtension_getattr_def
      split: option.splits attribute.splits)

theorem TrainingExtension_dispatch_invokes_named_method_witness:
  "\<forall>elsewhere :: string \<rightharpoonup> (nat, unit) attribute.
     TrainingExtension_getattr Map.empty elsewhere (\<lambda>a. None) ''after_batch'' =
       Some (Method after_batch) \<and>
     TrainingExtension_dispatch
       (TrainingExtension_getattr Map.empty elsewhere (\<lambda>a. None)) ''after_batch'' [3::nat] () =
       after_batch [3::nat] () \<and>
     after_batch [3::nat] () = Inr () \<and>
     TrainingExtension_getattr Map.empty (elsewhere(''after_batches'' := None)) (\<lambda>a. None)
       ''after_batches'' = None \<and>
     TrainingExtension_dispatch
       (TrainingExtension_getattr Map.empty (elsewhere(''after_batches'' := None)) (\<lambda>a. None))
       ''after_batches'' [3::nat] () =
       Inl (AttributeError ''after_batches'')"
proof
  fix elsewhere :: "string \<rightharpoonup> (nat, unit) attribute"
  let ?t = "TrainingExtension_getattr Map.empty elsewhere (\<lambda>a. None)"
  let ?u = "TrainingExtension_getattr Map.empty (elsewhere(''after_batches'' := None)) (\<lambda>a. None)"
  have f: "?t ''after_batch'' = Some (Method after_batch)"
    by (simp add: TrainingExtension_getattr_def TrainingExtension_attribute_def
        TrainingExtension_callbacks_def)
  have n: "?u ''after_batches'' = None"
    by (simp add: TrainingExtension_getattr_def TrainingExtension_attribute_def
        TrainingExtension_callbacks_def)
  have a: "after_batch [3::nat] () = Inr ()" by (simp add: after_batch_def)
  from TrainingExtension_dispatch_invokes_named_method
         [of ?t "''after_batch''" after_batch "[3::nat]" "()"] f
  have 1: "TrainingExtension_dispatch ?t ''after_batch'' [3::nat] () = after_batch [3::nat] ()" by simp
  from TrainingExtension_dispatch_invokes_named_method
         [of ?u "''after_batches''" after_batch "[3::nat]" "()"] n
  have 2: "TrainingExtension_dispatch ?u ''after_batches'' [3::nat] () =
             Inl (AttributeError ''after_batches'')" by simp
  show "?t ''after_batch'' = Some (Method after_batch) \<and>
        TrainingExtension_dispatch ?t ''after_batch'' [3::nat] () = after_batch [3::nat] () \<and>
        after_batch [3::nat] () = Inr () \<and>
        ?u ''after_batches'' = None \<and>
        TrainingExtension_dispatch ?u ''after_batches'' [3::nat] () =
          Inl (AttributeError ''after_batches'')"
    using f 1 a n 2 by (intro conjI)
qed

subsection \<open>FinishAfter\<close>

text \<open>
  C7. \<open>FinishAfter(after_training=True)\<close> holds the one condition on
  \<open>after_training\<close>. With a main loop attached, \<open>dispatch("after_training")\<close> calls \<open>do\<close>
  once and returns with \<open>training_finish_requested\<close> set to \<open>True\<close> in the current row of
  the log. \<open>FinishAfter.do\<close> does only that, whatever callback name and arguments it is
  given: the conditions, the status and the other attributes of the row stay as they
  were.
\<close>
theorem FinishAfter_requests_finish:
  "FinishAfter_init [(''after_training'', PBool True)] =
     Inr \<lparr>conditions = [(''after_training'', \<lambda>log. True, [])], main_loop = None\<rparr> \<and>
   dispatch FinishAfter_do ''after_training'' []
       \<lparr>conditions = [(''after_training'', \<lambda>log. True, [])], main_loop = Some ml\<rparr> =
     Some (Inr ([PredicateCalled 0 (log ml), DoCalled ''after_training'' []],
       \<lparr>conditions = [(''after_training'', \<lambda>log. True, [])],
        main_loop = Some (ml\<lparr>log := (log ml)\<lparr>current_row :=
          (current_row (log ml))(''training_finish_requested'' \<mapsto> PBool True)\<rparr>\<rparr>)\<rparr>)) \<and>
   FinishAfter_do which_callback args \<lparr>conditions = cs, main_loop = Some ml\<rparr> =
     Inr \<lparr>conditions = cs,
          main_loop = Some (ml\<lparr>log := (log ml)\<lparr>current_row :=
            (current_row (log ml))(''training_finish_requested'' \<mapsto> PBool True)\<rparr>\<rparr>)\<rparr>"
  by (simp add: FinishAfter_init_def SimpleExtension_init_kwargs_def SimpleExtension_parameters_def
      kwarg_def SimpleExtension_init_def add_condition_def
      dispatch_eq [OF FinishAfter_do_keeps_conditions] FinishAfter_do_def)

subsection \<open>Printing\<close>

lemma map_of_set_if_absent:
  "map_of (set_if_absent n kw) name =
     (if name = n \<and> map_of kw n = None then Some (PBool True) else map_of kw name)"
  by (auto simp: set_if_absent_def map_add_def split: option.splits)

lemma map_of_Printing_kwargs:
  "map_of (Printing_kwargs kw) name =
     (if name \<in> {''before_first_epoch'', ''after_training'', ''after_every_epoch''}
      then (case map_of kw name of None \<Rightarrow> Some (PBool True) | Some v \<Rightarrow> Some v)
      else map_of kw name)"
  by (auto simp: Printing_kwargs_def map_of_set_if_absent split: option.splits)

text \<open>
  C8. \<open>Printing()\<close> with no keyword registers the conditions of
  \<open>before_first_epoch=True\<close>, \<open>after_every_epoch=True\<close> and \<open>after_training=True\<close>: on
  \<open>before_epoch\<close> with the predicate \<open>epochs_done == 0\<close>, on \<open>after_epoch\<close> and on
  \<open>after_training\<close>. For any keywords, each of the three flags that the caller did not
  pass is set to \<open>True\<close>, a flag that the caller passed keeps the caller's value, and
  every other keyword is passed on as it is.
\<close>
theorem Printing_default_conditions:
  "Printing_init [] =
     Inr \<lparr>conditions = [(''before_epoch'', \<lambda>log. epochs_done (status log) = 0, []),
                        (''after_epoch'', \<lambda>log. True, []),
                        (''after_training'', \<lambda>log. True, [])],
          main_loop = None\<rparr> \<and>
   (\<forall>name \<in> {''before_first_epoch'', ''after_training'', ''after_every_epoch''}.
      map_of (Printing_kwargs kw) name =
        (case map_of kw name of None \<Rightarrow> Some (PBool True) | Some v \<Rightarrow> Some v)) \<and>
   (\<forall>name. name \<notin> {''before_first_epoch'', ''after_training'', ''after_every_epoch''} \<longrightarrow>
      map_of (Printing_kwargs kw) name = map_of kw name)"
proof -
  have "Printing_init [] =
     Inr \<lparr>conditions = [(''before_epoch'', \<lambda>log. epochs_done (status log) = 0, []),
                        (''after_epoch'', \<lambda>log. True, []),
                        (''after_training'', \<lambda>log. True, [])],
          main_loop = None\<rparr>"
    by (simp add: Printing_init_def Printing_kwargs_def set_if_absent_def
        SimpleExtension_init_kwargs_def SimpleExtension_parameters_def kwarg_def
        SimpleExtension_init_def add_condition_def)
  then show ?thesis by (simp add: map_of_Printing_kwargs)
qed

theorem Printing_default_conditions_witness:
  "Printing_kwargs [(''before_first_epoch'', PBool False), (''after_n_epochs'', PInt 3)] =
     [(''before_first_epoch'', PBool False), (''after_n_epochs'', PInt 3),
      (''after_training'', PBool True), (''after_every_epoch'', PBool True)] \<and>
   map_of (Printing_kwargs [(''before_first_epoch'', PBool False), (''after_n_epochs'', PInt 3)])
     ''before_first_epoch'' = Some (PBool False) \<and>
   map_of (Printing_kwargs [(''before_first_epoch'', PBool False), (''after_n_epochs'', PInt 3)])
     ''after_training'' = Some (PBool True) \<and>
   map_of (Printing_kwargs [(''before_first_epoch'', PBool False), (''after_n_epochs'', PInt 3)])
     ''after_n_epochs'' = Some (PInt 3) \<and>
   Printing_init [(''before_first_epoch'', PBool False), (''after_n_epochs'', PInt 3)] =
     Inr \<lparr>conditions = [(''after_epoch'', \<lambda>log. True, []),
                        (''after_training'', \<lambda>log. True, []),
                        (''after_epoch'', \<lambda>log. epochs_done (status log) = 3, [])],
          main_loop = None\<rparr>"
proof -
  let ?kw = "[(''before_first_epoch'', PBool False), (''after_n_epochs'', PInt 3)]"
  have k: "Printing_kwargs ?kw =
     [(''before_first_epoch'', PBool False), (''after_n_epochs'', PInt 3),
      (''after_training'', PBool True), (''after_every_epoch'', PBool True)]"
    by (simp add: Printing_kwargs_def set_if_absent_def)
  have i: "Printing_init ?kw =
     Inr \<lparr>conditions = [(''after_epoch'', \<lambda>log. True, []),
                        (''after_training'', \<lambda>log. True, []),
                        (''after_epoch'', \<lambda>log. epochs_done (status log) = 3, [])],
          main_loop = None\<rparr>"
    by (simp add: Printing_init_def k
        SimpleExtension_init_kwargs_def SimpleExtension_parameters_def kwarg_def
        SimpleExtension_init_def add_condition_def)
  from Printing_default_conditions [of ?kw, THEN conjunct2]
  have "map_of (Printing_kwargs ?kw) ''before_first_epoch'' = Some (PBool False)"
    and "map_of (Printing_kwargs ?kw) ''after_training'' = Some (PBool True)"
    and "map_of (Printing_kwargs ?kw) ''after_n_epochs'' = Some (PInt 3)"
    by simp_all
  with k i show ?thesis by simp
qed

subsection \<open>The counts after_n_epochs and after_n_batches\<close>

text \<open>
  C2, at \<open>N = 0\<close>. The constructor tests \<open>after_n_epochs\<close> and \<open>after_n_batches\<close> for
  truth, and \<open>0\<close> is false: with \<open>after_n_epochs=0\<close> or \<open>after_n_batches=0\<close> no condition
  is registered, and \<open>dispatch("after_epoch")\<close> with \<open>epochs_done == 0\<close> calls neither a
  predicate nor \<open>do\<close>.
\<close>
theorem after_n_zero_registers_nothing:
  "conditions (SimpleExtension_init (PBool False) (PBool False) (PBool False) (PBool False)
       (PInt 0) PNone) = [] \<and>
   conditions (SimpleExtension_init (PBool False) (PBool False) (PBool False) (PBool False)
       PNone (PInt 0)) = [] \<and>
   dispatch do ''after_epoch'' []
       ((SimpleExtension_init (PBool False) (PBool False) (PBool False) (PBool False)
           (PInt 0) PNone)
        \<lparr>main_loop := Some \<lparr>log = \<lparr>status = \<lparr>epochs_done = 0, iterations_done = 0\<rparr>,
                                  current_row = Map.empty\<rparr>\<rparr>\<rparr>) =
     Some (Inr ([],
       \<lparr>conditions = [],
        main_loop = Some \<lparr>log = \<lparr>status = \<lparr>epochs_done = 0, iterations_done = 0\<rparr>,
                               current_row = Map.empty\<rparr>\<rparr>\<rparr>))"
proof -
  have "dispatch_loop do ci fml 0 [] \<lparr>conditions = [], main_loop = m\<rparr> =
          Some (Inr ([], \<lparr>conditions = [], main_loop = m\<rparr>))" for ci fml m
    by (subst dispatch_loop.simps) simp
  then show ?thesis by (simp add: SimpleExtension_init_def dispatch_def)
qed

text \<open>For every other \<open>N\<close> the count registers the condition with the predicate \<open>== N\<close>.\<close>

lemma after_n_registers_when_nonzero:
  "n \<noteq> 0 \<Longrightarrow>
   SimpleExtension_init (PBool False) (PBool False) (PBool False) (PBool False) (PInt n) PNone =
     \<lparr>conditions = [(''after_epoch'', \<lambda>log. epochs_done (status log) = n, [])],
      main_loop = None\<rparr> \<and>
   SimpleExtension_init (PBool False) (PBool False) (PBool False) (PBool False) PNone (PInt n) =
     \<lparr>conditions = [(''after_batch'', \<lambda>log. iterations_done (status log) = n, [])],
      main_loop = None\<rparr>"
  by (simp add: SimpleExtension_init_def add_condition_def)

subsection \<open>Which calls dispatch makes\<close>

lemma enumerate_as_map: "enumerate 0 cs = map (\<lambda>k. (k, cs ! k)) [0..<length cs]"
  by (rule nth_equalityI) (simp_all add: nth_enumerate_eq)

lemma matching_positions:
  fixes cs :: "'a condition list"
  shows "map fst (filter (\<lambda>(k, cn, p, a). cn = ci) (enumerate 0 cs)) =
         filter (\<lambda>k. fst (cs ! k) = ci) [0..<length cs]"
proof -
  let ?f = "\<lambda>k. (k, cs ! k)"
  let ?Q = "\<lambda>(k :: nat, cn :: string, p :: log \<Rightarrow> bool, a :: 'a list). cn = ci"
  have q: "?Q \<circ> ?f = (\<lambda>k. fst (cs ! k) = ci)"
    by (rule ext) (simp add: case_prod_unfold)
  have "map fst (filter ?Q (map ?f [0..<length cs])) =
        map fst (map ?f (filter (?Q \<circ> ?f) [0..<length cs]))"
    by (simp only: filter_map)
  also have "\<dots> = filter (?Q \<circ> ?f) [0..<length cs]"
    by (simp only: map_map) (simp add: comp_def)
  finally show ?thesis by (simp only: enumerate_as_map q)
qed

text \<open>
  C1. Let \<open>do\<close> leave the list of conditions alone. Then \<open>dispatch\<close> returns, and when it
  returns normally the calls it has made are these. The predicates called are those of
  the conditions whose stored name equals the invoked name, each once and in
  registration order (positions in the list). \<open>do\<close> is called once for each of these
  predicate calls that returned true, in the same order, with the invoked name and the
  arguments from the main loop followed by the extra arguments of that condition; it is
  called for no other condition. The log given to a predicate is the log of the main
  loop at that moment, that is, as the calls of \<open>do\<close> made so far have left it. The
  extension that the dispatch leaves is the one that these calls of \<open>do\<close>, in their
  order, produce from the extension before.
\<close>
theorem dispatch_calls_do_once_per_satisfied_condition:
  assumes "do_keeps_conditions do"
  shows "(\<exists>r. dispatch do callback_invoked from_main_loop self = Some r) \<and>
    (\<forall>calls self'.
       dispatch do callback_invoked from_main_loop self = Some (Inr (calls, self')) \<longrightarrow>
         map fst (predicate_calls calls) =
           filter (\<lambda>k. fst (conditions self ! k) = callback_invoked)
             [0..<length (conditions self)] \<and>
         do_calls calls =
           map (\<lambda>(k, l). (callback_invoked, from_main_loop @ snd (snd (conditions self ! k))))
             (filter (\<lambda>(k, l). fst (snd (conditions self ! k)) l) (predicate_calls calls)) \<and>
         (\<forall>j k l. j < length calls \<and> calls ! j = PredicateCalled k l \<longrightarrow>
            (\<exists>s ml. replay do (do_calls (take j calls)) self = Inr s \<and>
                     main_loop s = Some ml \<and> log ml = l)) \<and>
         replay do (do_calls calls) self = Inr self')"
proof (intro conjI allI impI)
  show "\<exists>r. dispatch do callback_invoked from_main_loop self = Some r"
    by (simp add: dispatch_eq [OF assms])
next
  fix calls self'
  assume d: "dispatch do callback_invoked from_main_loop self = Some (Inr (calls, self'))"
  then have r: "conditions_loop do callback_invoked from_main_loop 0 (conditions self) self =
                  Inr (calls, self')"
    by (simp add: dispatch_eq [OF assms])
  show "map fst (predicate_calls calls) =
          filter (\<lambda>k. fst (conditions self ! k) = callback_invoked) [0..<length (conditions self)]"
    using loop_predicate_indices [OF r] by (simp only: matching_positions)
  show "do_calls calls =
          map (\<lambda>(k, l). (callback_invoked, from_main_loop @ snd (snd (conditions self ! k))))
            (filter (\<lambda>(k, l). fst (snd (conditions self ! k)) l) (predicate_calls calls))"
    using loop_do_calls [OF r] by simp
  show "replay do (do_calls calls) self = Inr self'"
    using d by (rule dispatch_replay)
  fix j k l
  assume "j < length calls \<and> calls ! j = PredicateCalled k l"
  then show "\<exists>s ml. replay do (do_calls (take j calls)) self = Inr s \<and>
                    main_loop s = Some ml \<and> log ml = l"
    using loop_predicate_logs [OF r] by blast
qed

theorem dispatch_calls_do_once_per_satisfied_condition_witness:
  "do_keeps_conditions (FinishAfter_do :: nat do_method) \<and>
   dispatch FinishAfter_do ''after_epoch'' [9]
       \<lparr>conditions = [(''after_epoch'', \<lambda>l. True, [1::nat]),
                      (''after_batch'', \<lambda>l. True, [2]),
                      (''after_epoch'', \<lambda>l. epochs_done (status l) = 5, [3]),
                      (''after_epoch'', \<lambda>l. epochs_done (status l) = 2, [4, 5])],
        main_loop = Some \<lparr>log = \<lparr>status = \<lparr>epochs_done = 2, iterations_done = 40\<rparr>,
                               current_row = Map.empty\<rparr>\<rparr>\<rparr> =
     Some (Inr
       ([PredicateCalled 0 \<lparr>status = \<lparr>epochs_done = 2, iterations_done = 40\<rparr>,
                           current_row = Map.empty\<rparr>,
         DoCalled ''after_epoch'' [9, 1],
         PredicateCalled 2 \<lparr>status = \<lparr>epochs_done = 2, iterations_done = 40\<rparr>,
                           current_row = [''training_finish_requested'' \<mapsto> PBool True]\<rparr>,
         PredicateCalled 3 \<lparr>status = \<lparr>epochs_done = 2, iterations_done = 40\<rparr>,
                           current_row = [''training_finish_requested'' \<mapsto> PBool True]\<rparr>,
         DoCalled ''after_epoch'' [9, 4, 5]],
        \<lparr>conditions = [(''after_epoch'', \<lambda>l. True, [1::nat]),
                       (''after_batch'', \<lambda>l. True, [2]),
                       (''after_epoch'', \<lambda>l. epochs_done (status l) = 5, [3]),
                       (''after_epoch'', \<lambda>l. epochs_done (status l) = 2, [4, 5])],
         main_loop = Some \<lparr>log = \<lparr>status = \<lparr>epochs_done = 2, iterations_done = 40\<rparr>,
                                current_row =
                                  [''training_finish_requested'' \<mapsto> PBool True]\<rparr>\<rparr>\<rparr>)) \<and>
   do_calls
       [PredicateCalled 0 \<lparr>status = \<lparr>epochs_done = 2, iterations_done = 40\<rparr>,
                           current_row = Map.empty\<rparr>,
        DoCalled ''after_epoch'' [9, 1::nat],
        PredicateCalled 2 \<lparr>status = \<lparr>epochs_done = 2, iterations_done = 40\<rparr>,
                           current_row = [''training_finish_requested'' \<mapsto> PBool True]\<rparr>,
        PredicateCalled 3 \<lparr>status = \<lparr>epochs_done = 2, iterations_done = 40\<rparr>,
                           current_row = [''training_finish_requested'' \<mapsto> PBool True]\<rparr>,
        DoCalled ''after_epoch'' [9, 4, 5]] =
     [(''after_epoch'', [9, 1]), (''after_epoch'', [9, 4, 5])]"
proof -
  let ?ext = "\<lparr>conditions = [(''after_epoch'', \<lambda>l. True, [1::nat]),
                      (''after_batch'', \<lambda>l. True, [2]),
                      (''after_epoch'', \<lambda>l. epochs_done (status l) = 5, [3]),
                      (''after_epoch'', \<lambda>l. epochs_done (status l) = 2, [4, 5])],
        main_loop = Some \<lparr>log = \<lparr>status = \<lparr>epochs_done = 2, iterations_done = 40\<rparr>,
                               current_row = Map.empty\<rparr>\<rparr>\<rparr>"
  have keeps: "do_keeps_conditions (FinishAfter_do :: nat do_method)"
    by (rule FinishAfter_do_keeps_conditions)
  obtain r where r: "dispatch FinishAfter_do ''after_epoch'' [9] ?ext = Some r"
    using dispatch_calls_do_once_per_satisfied_condition
      [OF keeps, of "''after_epoch''" "[9]" ?ext]
    by blast
  have "r = conditions_loop FinishAfter_do ''after_epoch'' [9] 0 (conditions ?ext) ?ext"
    using r dispatch_eq [OF keeps, of "''after_epoch''" "[9]" ?ext] by simp
  then show ?thesis using keeps r by (simp add: FinishAfter_do_def)
qed

text \<open>
  For a \<open>do\<close> that changes the list the count fails. Here \<open>do\<close> is
  \<open>del self._conditions[:]\<close>: two conditions are registered for the invoked name, both
  with a predicate that is true on the log, and \<open>do\<close> is called once.
\<close>

theorem dispatch_calls_do_once_per_satisfied_condition_counterexample:
  "dispatch (\<lambda>w args self. Inr (self\<lparr>conditions := []\<rparr>)) ''after_epoch'' [9]
       \<lparr>conditions = [(''after_epoch'', \<lambda>l. True, [1::nat]), (''after_epoch'', \<lambda>l. True, [2])],
        main_loop = Some \<lparr>log = \<lparr>status = \<lparr>epochs_done = 1, iterations_done = 5\<rparr>,
                               current_row = Map.empty\<rparr>\<rparr>\<rparr> =
     Some (Inr ([PredicateCalled 0 \<lparr>status = \<lparr>epochs_done = 1, iterations_done = 5\<rparr>,
                                    current_row = Map.empty\<rparr>,
                 DoCalled ''after_epoch'' [9, 1]],
       \<lparr>conditions = [],
        main_loop = Some \<lparr>log = \<lparr>status = \<lparr>epochs_done = 1, iterations_done = 5\<rparr>,
                               current_row = Map.empty\<rparr>\<rparr>\<rparr>)) \<and>
   do_calls [PredicateCalled 0 \<lparr>status = \<lparr>epochs_done = 1, iterations_done = 5\<rparr>,
                                current_row = Map.empty\<rparr>,
             DoCalled ''after_epoch'' [9, 1::nat]] = [(''after_epoch'', [9, 1])] \<and>
   map (\<lambda>(callback_name, predicate, arguments). (''after_epoch'', [9] @ arguments))
     (filter (\<lambda>(callback_name, predicate, arguments).
                callback_name = ''after_epoch'' \<and>
                predicate \<lparr>status = \<lparr>epochs_done = 1, iterations_done = 5\<rparr>,
                           current_row = Map.empty\<rparr>)
        [(''after_epoch'', \<lambda>l. True, [1::nat]), (''after_epoch'', \<lambda>l. True, [2])]) =
     [(''after_epoch'', [9, 1]), (''after_epoch'', [9, 2])]"
  unfolding dispatch_def
  by (subst dispatch_loop.simps, simp)+

lemma count_list_distinct:
  "distinct xs \<Longrightarrow> count_list xs x = (if x \<in> set xs then 1 else 0)"
  by (induction xs) auto

text \<open>
  C10. For every \<open>do\<close>, when \<open>dispatch\<close> returns normally: every predicate call was made
  for a position of the list whose condition, at that moment, had the invoked name as
  its stored name, and its one argument was the log of the main loop at that moment
  (the moment being after the calls of \<open>do\<close> made so far). So a predicate is never
  called for a condition stored under another name. With a \<open>do\<close> that leaves the list
  of conditions alone, moreover, \<open>dispatch\<close> returns, and when it returns normally the
  predicate of every registered condition with the invoked name has been called exactly
  once and the predicate of a condition with another name not at all.
\<close>
theorem predicates_called_only_for_invoked_name:
  "(\<forall>calls self' j k l.
       dispatch do callback_invoked from_main_loop self = Some (Inr (calls, self')) \<and>
       j < length calls \<and> calls ! j = PredicateCalled k l \<longrightarrow>
         (\<exists>s ml. replay do (do_calls (take j calls)) self = Inr s \<and>
            k < length (conditions s) \<and> fst (conditions s ! k) = callback_invoked \<and>
            main_loop s = Some ml \<and> log ml = l)) \<and>
    (do_keeps_conditions do \<longrightarrow>
    (\<exists>r. dispatch do callback_invoked from_main_loop self = Some r) \<and>
    (\<forall>calls self'.
       dispatch do callback_invoked from_main_loop self = Some (Inr (calls, self')) \<longrightarrow>
         (\<forall>k l. (k, l) \<in> set (predicate_calls calls) \<longrightarrow>
            k < length (conditions self) \<and> fst (conditions self ! k) = callback_invoked) \<and>
         (\<forall>k < length (conditions self).
            count_list (map fst (predicate_calls calls)) k =
              (if fst (conditions self ! k) = callback_invoked then 1 else 0)) \<and>
         (\<forall>j k l. j < length calls \<and> calls ! j = PredicateCalled k l \<longrightarrow>
            (\<exists>s ml. replay do (do_calls (take j calls)) self = Inr s \<and>
                     main_loop s = Some ml \<and> log ml = l))))"
proof -
  have general: "\<exists>s ml. replay do (do_calls (take j calls)) self = Inr s \<and>
            k < length (conditions s) \<and> fst (conditions s ! k) = callback_invoked \<and>
            main_loop s = Some ml \<and> log ml = l"
    if "dispatch do callback_invoked from_main_loop self = Some (Inr (calls, self')) \<and>
       j < length calls \<and> calls ! j = PredicateCalled k l" for calls self' j k l
    using that dispatch_predicate_calls [of "do" callback_invoked from_main_loop self] by blast
  have returns: "\<exists>r. dispatch do callback_invoked from_main_loop self = Some r"
    if assms: "do_keeps_conditions do"
    by (simp add: dispatch_eq [OF assms])
  have "(\<forall>k l. (k, l) \<in> set (predicate_calls calls) \<longrightarrow>
            k < length (conditions self) \<and> fst (conditions self ! k) = callback_invoked) \<and>
         (\<forall>k < length (conditions self).
            count_list (map fst (predicate_calls calls)) k =
              (if fst (conditions self ! k) = callback_invoked then 1 else 0)) \<and>
         (\<forall>j k l. j < length calls \<and> calls ! j = PredicateCalled k l \<longrightarrow>
            (\<exists>s ml. replay do (do_calls (take j calls)) self = Inr s \<and>
                     main_loop s = Some ml \<and> log ml = l))"
    if assms: "do_keeps_conditions do"
      and d: "dispatch do callback_invoked from_main_loop self = Some (Inr (calls, self'))"
    for calls self'
  proof -
    have r: "conditions_loop do callback_invoked from_main_loop 0 (conditions self) self =
               Inr (calls, self')"
      using d by (simp add: dispatch_eq [OF assms])
    have idx: "map fst (predicate_calls calls) =
        filter (\<lambda>k. fst (conditions self ! k) = callback_invoked) [0..<length (conditions self)]"
      using loop_predicate_indices [OF r] by (simp only: matching_positions)
    have only: "k < length (conditions self) \<and> fst (conditions self ! k) = callback_invoked"
      if "(k, l) \<in> set (predicate_calls calls)" for k l
    proof -
      have "k \<in> set (map fst (predicate_calls calls))" using that by force
      then show ?thesis unfolding idx by simp
    qed
    have once: "count_list (map fst (predicate_calls calls)) k =
                 (if fst (conditions self ! k) = callback_invoked then 1 else 0)"
      if "k < length (conditions self)" for k
      using that unfolding idx by (simp add: count_list_distinct)
    have logs: "\<exists>s ml. replay do (do_calls (take j calls)) self = Inr s \<and>
                    main_loop s = Some ml \<and> log ml = l"
      if "j < length calls \<and> calls ! j = PredicateCalled k l" for j k l
      using that loop_predicate_logs [OF r] by blast
    show ?thesis using only once logs by blast
  qed
  with general returns show ?thesis by blast
qed

theorem predicates_called_only_for_invoked_name_witness:
  "do_keeps_conditions (FinishAfter_do :: nat do_method) \<and>
   dispatch FinishAfter_do ''after_batch'' [8]
       \<lparr>conditions = [(''after_epoch'', \<lambda>l. True, []),
                      (''after_batch'', \<lambda>l. iterations_done (status l) = 30, [6::nat]),
                      (''after_batch'', \<lambda>l. True, []),
                      (''before_epoch'', \<lambda>l. epochs_done (status l) = 0, [])],
        main_loop = Some \<lparr>log = \<lparr>status = \<lparr>epochs_done = 0, iterations_done = 30\<rparr>,
                               current_row = Map.empty\<rparr>\<rparr>\<rparr> =
     Some (Inr
       ([PredicateCalled 1 \<lparr>status = \<lparr>epochs_done = 0, iterations_done = 30\<rparr>,
                           current_row = Map.empty\<rparr>,
         DoCalled ''after_batch'' [8, 6],
         PredicateCalled 2 \<lparr>status = \<lparr>epochs_done = 0, iterations_done = 30\<rparr>,
                           current_row = [''training_finish_requested'' \<mapsto> PBool True]\<rparr>,
         DoCalled ''after_batch'' [8]],
        \<lparr>conditions = [(''after_epoch'', \<lambda>l. True, []),
                       (''after_batch'', \<lambda>l. iterations_done (status l) = 30, [6::nat]),
                       (''after_batch'', \<lambda>l. True, []),
                       (''before_epoch'', \<lambda>l. epochs_done (status l) = 0, [])],
         main_loop = Some \<lparr>log = \<lparr>status = \<lparr>epochs_done = 0, iterations_done = 30\<rparr>,
                                current_row =
                                  [''training_finish_requested'' \<mapsto> PBool True]\<rparr>\<rparr>\<rparr>)) \<and>
   map fst (predicate_calls
       [PredicateCalled 1 \<lparr>status = \<lparr>epochs_done = 0, iterations_done = 30\<rparr>,
                           current_row = Map.empty\<rparr>,
        DoCalled ''after_batch'' [8, 6::nat],
        PredicateCalled 2 \<lparr>status = \<lparr>epochs_done = 0, iterations_done = 30\<rparr>,
                           current_row = [''training_finish_requested'' \<mapsto> PBool True]\<rparr>,
        DoCalled ''after_batch'' [8]]) = [1, 2]"
proof -
  let ?ext = "\<lparr>conditions = [(''after_epoch'', \<lambda>l. True, []),
                      (''after_batch'', \<lambda>l. iterations_done (status l) = 30, [6::nat]),
                      (''after_batch'', \<lambda>l. True, []),
                      (''before_epoch'', \<lambda>l. epochs_done (status l) = 0, [])],
        main_loop = Some \<lparr>log = \<lparr>status = \<lparr>epochs_done = 0, iterations_done = 30\<rparr>,
                               current_row = Map.empty\<rparr>\<rparr>\<rparr>"
  have keeps: "do_keeps_conditions (FinishAfter_do :: nat do_method)"
    by (rule FinishAfter_do_keeps_conditions)
  obtain r where r: "dispatch FinishAfter_do ''after_batch'' [8] ?ext = Some r"
    using predicates_called_only_for_invoked_name
      [of FinishAfter_do "''after_batch''" "[8]" ?ext, THEN conjunct2, THEN mp, OF keeps]
    by blast
  have "r = conditions_loop FinishAfter_do ''after_batch'' [8] 0 (conditions ?ext) ?ext"
    using r dispatch_eq [OF keeps, of "''after_batch''" "[8]" ?ext] by simp
  then show ?thesis using keeps r by (simp add: FinishAfter_do_def)
qed

text \<open>
  For a \<open>do\<close> that changes the list, a registered condition with the invoked name can
  be left out. Here \<open>do\<close> is \<open>del self._conditions[1:]\<close>: the predicate of the second
  condition is not called.
\<close>

theorem predicates_called_only_for_invoked_name_counterexample:
  "dispatch (\<lambda>w args self. Inr (self\<lparr>conditions := take 1 (conditions self)\<rparr>)) ''after_batch'' [8]
       \<lparr>conditions = [(''after_batch'', \<lambda>l. True, [6::nat]),
                      (''after_batch'', \<lambda>l. iterations_done (status l) = 30, [])],
        main_loop = Some \<lparr>log = \<lparr>status = \<lparr>epochs_done = 0, iterations_done = 30\<rparr>,
                               current_row = Map.empty\<rparr>\<rparr>\<rparr> =
     Some (Inr ([PredicateCalled 0 \<lparr>status = \<lparr>epochs_done = 0, iterations_done = 30\<rparr>,
                                    current_row = Map.empty\<rparr>,
                 DoCalled ''after_batch'' [8, 6]],
       \<lparr>conditions = [(''after_batch'', \<lambda>l. True, [6])],
        main_loop = Some \<lparr>log = \<lparr>status = \<lparr>epochs_done = 0, iterations_done = 30\<rparr>,
                               current_row = Map.empty\<rparr>\<rparr>\<rparr>)) \<and>
   count_list
     (map fst (predicate_calls
        [PredicateCalled 0 \<lparr>status = \<lparr>epochs_done = 0, iterations_done = 30\<rparr>,
                            current_row = Map.empty\<rparr>,
         DoCalled ''after_batch'' [8, 6::nat]])) 1 = 0"
  unfolding dispatch_def
  by (subst dispatch_loop.simps, simp)+

subsection \<open>The defaults of add_condition\<close>





subsection \<open>The flag before_first_epoch\<close>

lemma run_do_calls:
  assumes "list_all2 (\<lambda>ml calls. do_calls calls =
             (if epochs_done (status (log ml)) = 0 then [c] else [])) mls css"
    and "length (filter (\<lambda>ml. epochs_done (status (log ml)) = 0) mls) = 1"
  shows "concat (map do_calls css) = [c]"
  using assms
proof (induction rule: list_all2_induct)
  case Nil
  then show ?case by simp
next
  case (Cons ml mls calls css)
  show ?case
  proof (cases "epochs_done (status (log ml)) = 0")
    case True
    with Cons.prems have none: "filter (\<lambda>ml. epochs_done (status (log ml)) = 0) mls = []"
      by simp
    have "concat (map do_calls css) = []"
      using Cons.hyps(2) none
      by (induction rule: list_all2_induct) (auto split: if_splits)
    with True Cons.hyps(1) show ?thesis by simp
  next
    case False
    with Cons show ?thesis by simp
  qed
qed

text \<open>
  C6. The constructor with \<open>before_first_epoch=True\<close> and nothing else registers one
  condition, on \<open>before_epoch\<close>, with the predicate \<open>epochs_done == 0\<close>. Let \<open>do\<close> leave the
  list of conditions alone. Then a dispatch of \<open>before_epoch\<close> with \<open>epochs_done == 0\<close>
  in the log calls the predicate and then \<open>do\<close>, once, with the arguments from the main
  loop, and its outcome is the outcome of that call (the extension as \<open>do\<close> leaves it,
  or the error that \<open>do\<close> raises); with any other value of \<open>epochs_done\<close> it calls the
  predicate only and leaves the extension as it was. A run is given by the states of
  the main loop at its successive dispatches of \<open>before_epoch\<close>, the extension holding
  the same condition at each of them: when \<open>epochs_done\<close> is \<open>0\<close> at exactly one of them
  and all return normally, \<open>do\<close> is called exactly once in the whole run.
\<close>
theorem before_first_epoch_fires_when_no_epoch_is_done:
  fixes do :: "'a do_method"
  shows
  "(SimpleExtension_init (PBool True) (PBool False) (PBool False) (PBool False) PNone PNone
      :: 'a simple_extension) =
     \<lparr>conditions = [(''before_epoch'', \<lambda>log. epochs_done (status log) = 0, [])],
      main_loop = None\<rparr> \<and>
   (do_keeps_conditions do \<longrightarrow>
      (\<forall>ml.
         dispatch do ''before_epoch'' from_main_loop
           \<lparr>conditions = [(''before_epoch'', \<lambda>log. epochs_done (status log) = 0, [])],
            main_loop = Some ml\<rparr> =
           (if epochs_done (status (log ml)) = 0
            then (case do ''before_epoch'' from_main_loop
                         \<lparr>conditions = [(''before_epoch'', \<lambda>log. epochs_done (status log) = 0, [])],
                          main_loop = Some ml\<rparr> of
                    Inl e \<Rightarrow> Some (Inl e)
                  | Inr self' \<Rightarrow>
                      Some (Inr ([PredicateCalled 0 (log ml),
                                  DoCalled ''before_epoch'' from_main_loop], self')))
            else Some (Inr ([PredicateCalled 0 (log ml)],
                   \<lparr>conditions = [(''before_epoch'', \<lambda>log. epochs_done (status log) = 0, [])],
                    main_loop = Some ml\<rparr>)))) \<and>
      (\<forall>mls css.
         list_all2 (\<lambda>ml calls. \<exists>self'.
             dispatch do ''before_epoch'' from_main_loop
               \<lparr>conditions = [(''before_epoch'', \<lambda>log. epochs_done (status log) = 0, [])],
                main_loop = Some ml\<rparr> = Some (Inr (calls, self'))) mls css \<and>
         length (filter (\<lambda>ml. epochs_done (status (log ml)) = 0) mls) = 1 \<longrightarrow>
         concat (map do_calls css) = [(''before_epoch'', from_main_loop)]))"
proof -
  let ?cs = "[(''before_epoch'', \<lambda>log. epochs_done (status log) = 0, [])] :: 'a condition list"
  have init: "(SimpleExtension_init (PBool True) (PBool False) (PBool False) (PBool False) PNone PNone
      :: 'a simple_extension) =
     \<lparr>conditions = ?cs, main_loop = None\<rparr>"
    by (simp add: SimpleExtension_init_def add_condition_def)
  have one: "dispatch do ''before_epoch'' from_main_loop \<lparr>conditions = ?cs, main_loop = Some ml\<rparr> =
           (if epochs_done (status (log ml)) = 0
            then (case do ''before_epoch'' from_main_loop \<lparr>conditions = ?cs, main_loop = Some ml\<rparr> of
                    Inl e \<Rightarrow> Some (Inl e)
                  | Inr self' \<Rightarrow>
                      Some (Inr ([PredicateCalled 0 (log ml),
                                  DoCalled ''before_epoch'' from_main_loop], self')))
            else Some (Inr ([PredicateCalled 0 (log ml)], \<lparr>conditions = ?cs, main_loop = Some ml\<rparr>)))"
    if keeps: "do_keeps_conditions do" for ml
    by (simp add: dispatch_eq [OF keeps] split: sum.splits)
  have run: "concat (map do_calls css) = [(''before_epoch'', from_main_loop)]"
    if keeps: "do_keeps_conditions do"
      and all: "list_all2 (\<lambda>ml calls. \<exists>self'.
             dispatch do ''before_epoch'' from_main_loop
               \<lparr>conditions = ?cs, main_loop = Some ml\<rparr> = Some (Inr (calls, self'))) mls css"
      and z: "length (filter (\<lambda>ml. epochs_done (status (log ml)) = 0) mls) = 1"
    for mls css
  proof -
    have "list_all2 (\<lambda>ml calls. do_calls calls =
             (if epochs_done (status (log ml)) = 0 then [(''before_epoch'', from_main_loop)] else []))
            mls css"
      using all
    proof (rule list_all2_mono)
      fix ml calls
      assume "\<exists>self'. dispatch do ''before_epoch'' from_main_loop
               \<lparr>conditions = ?cs, main_loop = Some ml\<rparr> = Some (Inr (calls, self'))"
      then show "do_calls calls =
             (if epochs_done (status (log ml)) = 0 then [(''before_epoch'', from_main_loop)] else [])"
        unfolding one [OF keeps] by (auto split: if_splits sum.splits)
    qed
    from run_do_calls [OF this z] show ?thesis .
  qed
  show ?thesis using init one run by blast
qed

theorem before_first_epoch_fires_when_no_epoch_is_done_witness:
  "do_keeps_conditions (FinishAfter_do :: nat do_method) \<and>
   dispatch (FinishAfter_do :: nat do_method) ''before_epoch'' []
       \<lparr>conditions = [(''before_epoch'', \<lambda>log. epochs_done (status log) = 0, [])],
        main_loop = Some \<lparr>log = \<lparr>status = \<lparr>epochs_done = 0, iterations_done = 0\<rparr>, current_row = Map.empty\<rparr>\<rparr>\<rparr> =
     Some (Inr
       ([PredicateCalled 0 \<lparr>status = \<lparr>epochs_done = 0, iterations_done = 0\<rparr>, current_row = Map.empty\<rparr>,
         DoCalled ''before_epoch'' []],
        \<lparr>conditions = [(''before_epoch'', \<lambda>log. epochs_done (status log) = 0, [])],
         main_loop = Some \<lparr>log = \<lparr>status = \<lparr>epochs_done = 0, iterations_done = 0\<rparr>,
                                current_row =
                                  [''training_finish_requested'' \<mapsto> PBool True]\<rparr>\<rparr>\<rparr>)) \<and>
   dispatch (FinishAfter_do :: nat do_method) ''before_epoch'' []
       \<lparr>conditions = [(''before_epoch'', \<lambda>log. epochs_done (status log) = 0, [])],
        main_loop = Some \<lparr>log = \<lparr>status = \<lparr>epochs_done = 1, iterations_done = 10\<rparr>, current_row = Map.empty\<rparr>\<rparr>\<rparr> =
     Some (Inr
       ([PredicateCalled 0 \<lparr>status = \<lparr>epochs_done = 1, iterations_done = 10\<rparr>, current_row = Map.empty\<rparr>],
        \<lparr>conditions = [(''before_epoch'', \<lambda>log. epochs_done (status log) = 0, [])],
         main_loop = Some \<lparr>log = \<lparr>status = \<lparr>epochs_done = 1, iterations_done = 10\<rparr>, current_row = Map.empty\<rparr>\<rparr>\<rparr>)) \<and>
   list_all2 (\<lambda>ml calls. \<exists>self'.
       dispatch (FinishAfter_do :: nat do_method) ''before_epoch'' []
         \<lparr>conditions = [(''before_epoch'', \<lambda>log. epochs_done (status log) = 0, [])],
          main_loop = Some ml\<rparr> = Some (Inr (calls, self')))
     [\<lparr>log = \<lparr>status = \<lparr>epochs_done = 0, iterations_done = 0\<rparr>, current_row = Map.empty\<rparr>\<rparr>,
      \<lparr>log = \<lparr>status = \<lparr>epochs_done = 1, iterations_done = 10\<rparr>, current_row = Map.empty\<rparr>\<rparr>,
      \<lparr>log = \<lparr>status = \<lparr>epochs_done = 2, iterations_done = 20\<rparr>, current_row = Map.empty\<rparr>\<rparr>]
     [[PredicateCalled 0 \<lparr>status = \<lparr>epochs_done = 0, iterations_done = 0\<rparr>, current_row = Map.empty\<rparr>,
       DoCalled ''before_epoch'' ([] :: nat list)],
      [PredicateCalled 0 \<lparr>status = \<lparr>epochs_done = 1, iterations_done = 10\<rparr>, current_row = Map.empty\<rparr>],
      [PredicateCalled 0 \<lparr>status = \<lparr>epochs_done = 2, iterations_done = 20\<rparr>, current_row = Map.empty\<rparr>]] \<and>
   length (filter (\<lambda>ml. epochs_done (status (log ml)) = 0)
     [\<lparr>log = \<lparr>status = \<lparr>epochs_done = 0, iterations_done = 0\<rparr>, current_row = Map.empty\<rparr>\<rparr>,
      \<lparr>log = \<lparr>status = \<lparr>epochs_done = 1, iterations_done = 10\<rparr>, current_row = Map.empty\<rparr>\<rparr>,
      \<lparr>log = \<lparr>status = \<lparr>epochs_done = 2, iterations_done = 20\<rparr>, current_row = Map.empty\<rparr>\<rparr>]) = 1 \<and>
   concat (map do_calls
     [[PredicateCalled 0 \<lparr>status = \<lparr>epochs_done = 0, iterations_done = 0\<rparr>, current_row = Map.empty\<rparr>,
       DoCalled ''before_epoch'' ([] :: nat list)],
      [PredicateCalled 0 \<lparr>status = \<lparr>epochs_done = 1, iterations_done = 10\<rparr>, current_row = Map.empty\<rparr>],
      [PredicateCalled 0 \<lparr>status = \<lparr>epochs_done = 2, iterations_done = 20\<rparr>, current_row = Map.empty\<rparr>]]) = [(''before_epoch'', [])]"
proof -
  note inst = before_first_epoch_fires_when_no_epoch_is_done
    [of "FinishAfter_do :: nat do_method" "[]", THEN conjunct2, THEN mp,
     OF FinishAfter_do_keeps_conditions]
  have keeps: "do_keeps_conditions (FinishAfter_do :: nat do_method)"
    by (rule FinishAfter_do_keeps_conditions)
  have d0: "dispatch (FinishAfter_do :: nat do_method) ''before_epoch'' []
       \<lparr>conditions = [(''before_epoch'', \<lambda>log. epochs_done (status log) = 0, [])],
        main_loop = Some \<lparr>log = \<lparr>status = \<lparr>epochs_done = 0, iterations_done = 0\<rparr>, current_row = Map.empty\<rparr>\<rparr>\<rparr> =
     Some (Inr
       ([PredicateCalled 0 \<lparr>status = \<lparr>epochs_done = 0, iterations_done = 0\<rparr>, current_row = Map.empty\<rparr>,
         DoCalled ''before_epoch'' []],
        \<lparr>conditions = [(''before_epoch'', \<lambda>log. epochs_done (status log) = 0, [])],
         main_loop = Some \<lparr>log = \<lparr>status = \<lparr>epochs_done = 0, iterations_done = 0\<rparr>,
                                current_row =
                                  [''training_finish_requested'' \<mapsto> PBool True]\<rparr>\<rparr>\<rparr>))"
    using inst [THEN conjunct1, THEN spec, of "\<lparr>log = \<lparr>status = \<lparr>epochs_done = 0, iterations_done = 0\<rparr>, current_row = Map.empty\<rparr>\<rparr>"]
    by (simp add: FinishAfter_do_def)
  have d1: "dispatch (FinishAfter_do :: nat do_method) ''before_epoch'' []
       \<lparr>conditions = [(''before_epoch'', \<lambda>log. epochs_done (status log) = 0, [])],
        main_loop = Some \<lparr>log = \<lparr>status = \<lparr>epochs_done = 1, iterations_done = 10\<rparr>, current_row = Map.empty\<rparr>\<rparr>\<rparr> =
     Some (Inr
       ([PredicateCalled 0 \<lparr>status = \<lparr>epochs_done = 1, iterations_done = 10\<rparr>, current_row = Map.empty\<rparr>],
        \<lparr>conditions = [(''before_epoch'', \<lambda>log. epochs_done (status log) = 0, [])],
         main_loop = Some \<lparr>log = \<lparr>status = \<lparr>epochs_done = 1, iterations_done = 10\<rparr>, current_row = Map.empty\<rparr>\<rparr>\<rparr>))"
    using inst [THEN conjunct1, THEN spec, of "\<lparr>log = \<lparr>status = \<lparr>epochs_done = 1, iterations_done = 10\<rparr>, current_row = Map.empty\<rparr>\<rparr>"]
    by simp
  have run: "list_all2 (\<lambda>ml calls. \<exists>self'.
       dispatch (FinishAfter_do :: nat do_method) ''before_epoch'' []
         \<lparr>conditions = [(''before_epoch'', \<lambda>log. epochs_done (status log) = 0, [])],
          main_loop = Some ml\<rparr> = Some (Inr (calls, self')))
     [\<lparr>log = \<lparr>status = \<lparr>epochs_done = 0, iterations_done = 0\<rparr>, current_row = Map.empty\<rparr>\<rparr>,
      \<lparr>log = \<lparr>status = \<lparr>epochs_done = 1, iterations_done = 10\<rparr>, current_row = Map.empty\<rparr>\<rparr>,
      \<lparr>log = \<lparr>status = \<lparr>epochs_done = 2, iterations_done = 20\<rparr>, current_row = Map.empty\<rparr>\<rparr>]
     [[PredicateCalled 0 \<lparr>status = \<lparr>epochs_done = 0, iterations_done = 0\<rparr>, current_row = Map.empty\<rparr>,
       DoCalled ''before_epoch'' ([] :: nat list)],
      [PredicateCalled 0 \<lparr>status = \<lparr>epochs_done = 1, iterations_done = 10\<rparr>, current_row = Map.empty\<rparr>],
      [PredicateCalled 0 \<lparr>status = \<lparr>epochs_done = 2, iterations_done = 20\<rparr>, current_row = Map.empty\<rparr>]]"
    by (simp add: dispatch_eq [OF keeps] FinishAfter_do_def)
  have z: "length (filter (\<lambda>ml. epochs_done (status (log ml)) = 0)
     [\<lparr>log = \<lparr>status = \<lparr>epochs_done = 0, iterations_done = 0\<rparr>, current_row = Map.empty\<rparr>\<rparr>,
      \<lparr>log = \<lparr>status = \<lparr>epochs_done = 1, iterations_done = 10\<rparr>, current_row = Map.empty\<rparr>\<rparr>,
      \<lparr>log = \<lparr>status = \<lparr>epochs_done = 2, iterations_done = 20\<rparr>, current_row = Map.empty\<rparr>\<rparr>]) = 1"
    by simp
  have once: "concat (map do_calls
     [[PredicateCalled 0 \<lparr>status = \<lparr>epochs_done = 0, iterations_done = 0\<rparr>, current_row = Map.empty\<rparr>,
       DoCalled ''before_epoch'' ([] :: nat list)],
      [PredicateCalled 0 \<lparr>status = \<lparr>epochs_done = 1, iterations_done = 10\<rparr>, current_row = Map.empty\<rparr>],
      [PredicateCalled 0 \<lparr>status = \<lparr>epochs_done = 2, iterations_done = 20\<rparr>, current_row = Map.empty\<rparr>]]) = [(''before_epoch'', [])]"
    by (rule inst [THEN conjunct2, THEN spec, THEN spec, THEN mp, OF conjI [OF run z]])
  show ?thesis
    by (rule conjI [OF keeps conjI [OF d0 conjI [OF d1 conjI [OF run conjI [OF z once]]]]])
qed

text \<open>
  For a \<open>do\<close> that registers conditions, one dispatch can fire more than once. Here
  \<open>do\<close> is \<open>if len(self._conditions) < 2: self.add_condition("before_epoch")\<close>: the one
  dispatch of \<open>before_epoch\<close> with \<open>epochs_done == 0\<close> calls \<open>do\<close> twice.
\<close>

theorem before_first_epoch_fires_when_no_epoch_is_done_counterexample:
  "dispatch
     (\<lambda>w args self.
        Inr (if length (conditions self) < 2
             then add_condition ''before_epoch'' None None self else self))
     ''before_epoch'' []
     ((SimpleExtension_init (PBool True) (PBool False) (PBool False) (PBool False) PNone PNone
         :: nat simple_extension)
      \<lparr>main_loop := Some \<lparr>log = \<lparr>status = \<lparr>epochs_done = 0, iterations_done = 0\<rparr>, current_row = Map.empty\<rparr>\<rparr>\<rparr>) =
     Some (Inr
       ([PredicateCalled 0 \<lparr>status = \<lparr>epochs_done = 0, iterations_done = 0\<rparr>, current_row = Map.empty\<rparr>,
         DoCalled ''before_epoch'' [],
         PredicateCalled 1 \<lparr>status = \<lparr>epochs_done = 0, iterations_done = 0\<rparr>, current_row = Map.empty\<rparr>,
         DoCalled ''before_epoch'' []],
        \<lparr>conditions = [(''before_epoch'', \<lambda>log. epochs_done (status log) = 0, []),
                       (''before_epoch'', \<lambda>log. True, [])],
         main_loop = Some \<lparr>log = \<lparr>status = \<lparr>epochs_done = 0, iterations_done = 0\<rparr>, current_row = Map.empty\<rparr>\<rparr>\<rparr>)) \<and>
   length (do_calls
       [PredicateCalled 0 \<lparr>status = \<lparr>epochs_done = 0, iterations_done = 0\<rparr>, current_row = Map.empty\<rparr>,
        DoCalled ''before_epoch'' ([] :: nat list),
        PredicateCalled 1 \<lparr>status = \<lparr>epochs_done = 0, iterations_done = 0\<rparr>, current_row = Map.empty\<rparr>,
        DoCalled ''before_epoch'' []]) = 2"
  unfolding dispatch_def SimpleExtension_init_def
  by (subst dispatch_loop.simps, simp add: add_condition_def)+

end
